theory Spec2Isabelle
  imports Main "HOL-Library.Word" "HOL-Library.Char_ord" "HOL-Library.List_Lexorder"
    "HOL-Library.AList" "HOL-Library.Multiset"
begin

unbundle bit_operations_syntax

section \<open>Strings and paths\<close>

text \<open>
  Go strings are byte sequences; \<open>string\<close> (a list of 8-bit characters) models them, and
  the order of \<open>HOL-Library.Char_ord\<close> and \<open>HOL-Library.List_Lexorder\<close> is Go's
  byte-wise \<open><\<close> on strings.
\<close>

definition separator :: char where
  "separator = CHR ''/''"

text \<open>\<open>strings.Split(s, "/")\<close>: the pieces between separators, never an empty list.\<close>

fun Split :: "string \<Rightarrow> string list" where
  "Split [] = [[]]"
| "Split (c # cs) =
     (if c = separator then [] # Split cs
      else (c # hd (Split cs)) # tl (Split cs))"

text \<open>\<open>strings.Join(parts, "/")\<close>.\<close>

fun Join :: "string list \<Rightarrow> string" where
  "Join [] = []"
| "Join [p] = p"
| "Join (p # q # ps) = p @ separator # Join (q # ps)"

text \<open>\<open>strings.TrimPrefix\<close>.\<close>

definition TrimPrefix :: "string \<Rightarrow> string \<Rightarrow> string" where
  "TrimPrefix s pre = (if take (length pre) s = pre then drop (length pre) s else s)"

text \<open>
  \<open>path.Clean\<close> of the Go standard library, as its source has it: a scan over the path
  with an output buffer \<open>out\<close> and the index \<open>dotdot\<close> below which the buffer may not be
  backtracked. \<open>rest\<close> is the unread part \<open>path[r:]\<close>.
\<close>

function lastSlash :: "string \<Rightarrow> nat \<Rightarrow> nat \<Rightarrow> nat" where
  "lastSlash out dotdot w =
     (if w > dotdot \<and> out ! w \<noteq> separator then lastSlash out dotdot (w - 1) else w)"
  by pat_completeness auto
termination
  by (relation "measure (\<lambda>(out, dotdot, w). w)") auto

declare lastSlash.simps [simp del]

function clean_loop :: "bool \<Rightarrow> string \<Rightarrow> string \<Rightarrow> nat \<Rightarrow> string" where
  "clean_loop rooted [] out dotdot = out"
| "clean_loop rooted (c # cs) out dotdot =
     (if c = separator then clean_loop rooted cs out dotdot
      else if c = CHR ''.'' \<and> (cs = [] \<or> hd cs = separator) then
        clean_loop rooted cs out dotdot
      else if c = CHR ''.'' \<and> hd cs = CHR ''.'' \<and> (tl cs = [] \<or> hd (tl cs) = separator) then
        (if length out > dotdot then
           clean_loop rooted (tl cs) (take (lastSlash out dotdot (length out - 1)) out) dotdot
         else if \<not> rooted then
           clean_loop rooted (tl cs) ((if out \<noteq> [] then out @ [separator] else out) @ ''..'')
             (length ((if out \<noteq> [] then out @ [separator] else out) @ ''..''))
         else clean_loop rooted (tl cs) out dotdot)
      else
        clean_loop rooted (dropWhile (\<lambda>x. x \<noteq> separator) (c # cs))
          ((if (rooted \<and> length out \<noteq> 1) \<or> (\<not> rooted \<and> length out \<noteq> 0)
            then out @ [separator] else out) @ takeWhile (\<lambda>x. x \<noteq> separator) (c # cs))
          dotdot)"
  by pat_completeness auto
termination
  apply (relation "measure (\<lambda>(rooted, rest, out, dotdot). length rest)")
      apply simp_all
  apply (rule le_imp_less_Suc)
  apply (rule length_dropWhile_le)
  done

definition Clean :: "string \<Rightarrow> string" where
  "Clean p =
     (if p = [] then ''.''
      else let rooted = (hd p = separator);
               out = clean_loop rooted (if rooted then tl p else p)
                       (if rooted then [separator] else []) (if rooted then 1 else 0)
           in if out = [] then ''.'' else out)"

text \<open>\<open>path.IsAbs\<close> and \<open>path.Join\<close>.\<close>

definition IsAbs :: "string \<Rightarrow> bool" where
  "IsAbs p = (p \<noteq> [] \<and> hd p = separator)"

fun join_buf :: "string \<Rightarrow> string list \<Rightarrow> string" where
  "join_buf buf [] = buf"
| "join_buf buf (e # es) =
     (if buf \<noteq> [] \<or> e \<noteq> []
      then join_buf ((if buf \<noteq> [] then buf @ [separator] else buf) @ e) es
      else join_buf buf es)"

definition path_Join :: "string list \<Rightarrow> string" where
  "path_Join elem = (if concat elem = [] then [] else Clean (join_buf [] elem))"

text \<open>\<open>cleanse\<close> of fs\_mem.go: the normal form every path takes before a tree lookup.\<close>

definition cleanse :: "string \<Rightarrow> string" where
  "cleanse p =
     (let p1 = Clean p;
          p2 = TrimPrefix p1 (''.'' @ [separator]);
          p3 = TrimPrefix p2 [separator]
      in if p3 = ''.'' then [] else p3)"


lemma Split_not_Nil: "Split s \<noteq> []"
  by (induction s) auto

lemma length_Join_Cons:
  "length (Join (x # xs)) = length x + (if xs = [] then 0 else Suc (length (Join xs)))"
  by (cases xs) auto

lemma length_Join_Split: "length (Join (Split s)) = length s"
proof (induction s)
  case Nil
  show ?case by simp
next
  case (Cons c cs)
  obtain p ps where ps: "Split cs = p # ps"
    using Split_not_Nil [of cs] by (cases "Split cs") auto
  from Cons ps show ?case by (auto simp: length_Join_Cons)
qed

lemma length_Join_tl_Split: "s \<noteq> [] \<Longrightarrow> length (Join (tl (Split s))) < length s"
proof -
  assume ne: "s \<noteq> []"
  obtain p ps where ps: "Split s = p # ps"
    using Split_not_Nil [of s] by (cases "Split s") auto
  have "length (Join (p # ps)) = length s"
    using length_Join_Split [of s] ps by simp
  moreover have "ps = [] \<Longrightarrow> p \<noteq> []"
    using ne ps \<open>length (Join (p # ps)) = length s\<close> by auto
  ultimately show ?thesis
    using ps by (auto simp: length_Join_Cons split: if_splits)
qed

lemma Split_multi_not_Nil: "length (Split s) \<noteq> Suc 0 \<Longrightarrow> s \<noteq> []"
  by auto

section \<open>The in-memory filesystem (fs/fs\_mem.go)\<close>

subsection \<open>Modes and errors\<close>

text \<open>\<open>fs.FileMode\<close> is a \<open>uint32\<close>; the type bits are those of package \<open>io/fs\<close>.\<close>

type_synonym FileMode = "32 word"

definition ModeDir :: FileMode where
  "ModeDir = push_bit 31 1"

definition ModeSymlink :: FileMode where
  "ModeSymlink = push_bit 27 1"

definition ModeDevice :: FileMode where
  "ModeDevice = push_bit 26 1"

definition ModeNamedPipe :: FileMode where
  "ModeNamedPipe = push_bit 25 1"

definition ModeSocket :: FileMode where
  "ModeSocket = push_bit 24 1"

definition ModeCharDevice :: FileMode where
  "ModeCharDevice = push_bit 21 1"

definition ModeIrregular :: FileMode where
  "ModeIrregular = push_bit 19 1"

definition ModeType :: FileMode where
  "ModeType = ModeDir OR ModeSymlink OR ModeNamedPipe OR ModeSocket OR ModeDevice
              OR ModeCharDevice OR ModeIrregular"

definition IsDir :: "FileMode \<Rightarrow> bool" where
  "IsDir m = (m AND ModeDir \<noteq> 0)"

definition IsRegular :: "FileMode \<Rightarrow> bool" where
  "IsRegular m = (m AND ModeType = 0)"

text \<open>
  The sentinel errors of \<open>io/fs\<close>, and the error values the filesystem builds from them:
  a bare sentinel, a \<open>*fs.PathError\<close> with its \<open>Op\<close>, \<open>Path\<close> and \<open>Err\<close>, and the
  \<open>fmt.Errorf\<close> errors of the file layer. \<open>BaseError\<close> is an error of the tree under a
  snapshot, known by its message only.
\<close>

datatype errno = ErrNotExist | ErrExist | ErrInvalid

datatype error =
    Err errno
  | PathError string string errno
  | MissingOpener
  | FailedToRead error
  | CannotWrite
  | InvalidPerm FileMode
  | BaseError string

subsection \<open>Nodes\<close>

text \<open>
  \<open>time.Time\<close> is a reading of the clock, a natural number here. An operation takes the
  reading \<open>now\<close> that \<open>time.Now()\<close> gives while it runs. The field \<open>sys\<close> of
  \<open>fileinfo\<close> is never written and is left out.
\<close>

type_synonym time = nat

type_synonym byte = "8 word"

record fileinfo =
  name :: string
  size' :: int
  modified :: time
  mode :: FileMode

text \<open>
  A \<open>lazyOpener\<close> is a closure. The code builds two: the one of \<open>dir.WriteFile\<close>, which
  returns a \<open>lazyAccess\<close> over the file's own \<open>content\<close>, and the one of \<open>SnapshotFS\<close>,
  which opens the file of the base tree; what that base file does when it is opened and
  written is outside the repository and is recorded in the closure.
\<close>

datatype base_file = OpenFails string | NotWriter | WriteFails string | WriteOk

datatype lazyOpener = LazyAccess | BaseOpener base_file

record "file" =
  info :: fileinfo
  opener :: "lazyOpener option"
  content :: "byte list"

text \<open>
  A Go map is an association list here, read with \<open>map_of\<close>, written with
  \<open>AList.update\<close> and \<open>AList.delete\<close>; the order of the list stands for the order in
  which \<open>range\<close> happens to visit the map.
\<close>

datatype dir = Directory (dinfo: fileinfo) (dirs: "(string \<times> dir) list")
  (files: "(string \<times> file) list")

record memFS =
  dir :: dir

text \<open>The root directory has mode \<open>0777 | fs.ModeDir\<close>; octal 777 is \<open>0x1FF\<close>.\<close>

definition newMemFS :: "time \<Rightarrow> memFS" where
  "newMemFS now =
     \<lparr>dir = Directory \<lparr>name = ''.'', size' = 0x100, modified = now, mode = 0x1FF OR ModeDir\<rparr>
              [] []\<rparr>"

subsection \<open>Lookups\<close>

function getDir :: "dir \<Rightarrow> string \<Rightarrow> error + dir" where
  "getDir d nm =
     (if nm = [] then Inr d
      else (case map_of (dirs d) (hd (Split nm)) of
              Some f \<Rightarrow> getDir f (Join (tl (Split nm)))
            | None \<Rightarrow> Inl (Err ErrNotExist)))"
  by pat_completeness auto
termination
  by (relation "measure (\<lambda>(d, nm). length nm)") (auto simp: length_Join_tl_Split)

declare getDir.simps [simp del]

function getFile :: "dir \<Rightarrow> string \<Rightarrow> error + file" where
  "getFile d nm =
     (if length (Split nm) = 1 then
        (case map_of (files d) nm of
           Some f \<Rightarrow> Inr f
         | None \<Rightarrow> Inl (Err ErrNotExist))
      else (case getDir d (hd (Split nm)) of
              Inl e \<Rightarrow> Inl e
            | Inr sub \<Rightarrow> getFile sub (Join (tl (Split nm)))))"
  by pat_completeness auto
termination
  by (relation "measure (\<lambda>(d, nm). length nm)")
     (auto simp: length_Join_tl_Split Split_multi_not_Nil)

declare getFile.simps [simp del]

definition Stat :: "memFS \<Rightarrow> string \<Rightarrow> error + fileinfo" where
  "Stat m nm =
     (case getFile (dir m) (cleanse nm) of
        Inr f \<Rightarrow> Inr (info f)
      | Inl _ \<Rightarrow>
          (case getDir (dir m) (cleanse nm) of
             Inr f \<Rightarrow> Inr (dinfo f)
           | Inl _ \<Rightarrow> Inl (PathError ''stat'' (cleanse nm) ErrNotExist)))"

definition Lstat :: "memFS \<Rightarrow> string \<Rightarrow> error + fileinfo" where
  "Lstat m nm = Inl (Err ErrInvalid)"


subsection \<open>Reading\<close>

text \<open>
  \<open>dir.ReadDir\<close> appends the \<open>fileinfo\<close> of every file, then of every subdirectory,
  and sorts the slice with \<open>sort.Slice\<close> under \<open>entries[i].Name() < entries[j].Name()\<close>;
  \<open>sort_key\<close> is the sort of the model.
\<close>

function dir_ReadDir :: "dir \<Rightarrow> string \<Rightarrow> error + fileinfo list" where
  "dir_ReadDir d nm =
     (if nm = [] then
        Inr (sort_key name (map (\<lambda>e. info (snd e)) (files d) @ map (\<lambda>e. dinfo (snd e)) (dirs d)))
      else (case map_of (dirs d) (hd (Split nm)) of
              None \<Rightarrow> Inl (Err ErrNotExist)
            | Some sub \<Rightarrow> dir_ReadDir sub (Join (tl (Split nm)))))"
  by pat_completeness auto
termination
  by (relation "measure (\<lambda>(d, nm). length nm)") (auto simp: length_Join_tl_Split)

declare dir_ReadDir.simps [simp del]

definition ReadDir :: "memFS \<Rightarrow> string \<Rightarrow> error + fileinfo list" where
  "ReadDir m nm = dir_ReadDir (dir m) (cleanse nm)"

text \<open>
  A handle returned by \<open>Open\<close> is the directory node itself or a \<open>fileAccess\<close> on the
  file node.
\<close>

datatype handle = DirHandle dir | FileAccess "file"

definition file_open :: "file \<Rightarrow> error + handle" where
  "file_open f = (if opener f = None then Inl MissingOpener else Inr (FileAccess f))"

definition dir_Open :: "dir \<Rightarrow> string \<Rightarrow> error + handle" where
  "dir_Open d nm =
     (if nm = [] \<or> nm = ''.'' then Inr (DirHandle d)
      else (case getFile d nm of
              Inr f \<Rightarrow> file_open f
            | Inl _ \<Rightarrow>
                (case getDir d nm of
                   Inr f \<Rightarrow> Inr (DirHandle f)
                 | Inl _ \<Rightarrow> Inl (PathError ''open'' nm ErrNotExist))))"

definition Open :: "memFS \<Rightarrow> string \<Rightarrow> error + handle" where
  "Open m nm = dir_Open (dir m) (cleanse nm)"

subsection \<open>Writing\<close>

text \<open>
  \<open>file.overwrite\<close>: the metadata is set first, then the loop
  \<open>for len(data) > 0\<close> writes through the handle. A \<open>lazyAccess\<close> resets its buffer over
  \<open>content\<close> and takes the whole of \<open>data\<close> in one \<open>Write\<close>; with no data the loop body
  never runs and \<open>content\<close> stays. The file is mutated in place, so the metadata written
  before a failing write remains. \<open>f.open()\<close> fails only without an opener, which the
  first test has excluded, so its error branch is not reached.
\<close>

definition overwrite :: "file \<Rightarrow> byte list \<Rightarrow> FileMode \<Rightarrow> time \<Rightarrow> error option \<times> file" where
  "overwrite f data perm now =
     (case opener f of
        None \<Rightarrow> (Some MissingOpener, f)
      | Some opn \<Rightarrow>
          (let f1 = f\<lparr>info := (info f)\<lparr>size' := int (length data), modified := now,
                                        mode := perm\<rparr>\<rparr>
           in if data = [] then (None, f1)
              else (case opn of
                      LazyAccess \<Rightarrow> (None, f1\<lparr>content := data\<rparr>)
                    | BaseOpener b \<Rightarrow>
                        (case b of
                           OpenFails e \<Rightarrow> (Some (FailedToRead (BaseError e)), f1)
                         | NotWriter \<Rightarrow> (Some CannotWrite, f1)
                         | WriteFails e \<Rightarrow> (Some (BaseError e), f1)
                         | WriteOk \<Rightarrow> (None, f1)))))"

text \<open>
  \<open>dir.WriteFile\<close> copies the data into a buffer of capacity at least \<open>bufferSize\<close>;
  the capacity is not part of the value. A new file gets the \<open>lazyAccess\<close> opener; the
  directories are not consulted for the last segment.
\<close>

function dir_WriteFile ::
  "dir \<Rightarrow> string \<Rightarrow> byte list \<Rightarrow> FileMode \<Rightarrow> time \<Rightarrow> error option \<times> dir" where
  "dir_WriteFile d path data perm now =
     (if perm AND ModeDir \<noteq> 0 then (Some (InvalidPerm perm), d)
      else if length (Split path) = 1 then
        (case map_of (files d) (hd (Split path)) of
           Some existing \<Rightarrow>
             (fst (overwrite existing data perm now),
              Directory (dinfo d) (dirs d)
                (AList.update (hd (Split path)) (snd (overwrite existing data perm now)) (files d)))
         | None \<Rightarrow>
             (None,
              Directory (dinfo d) (dirs d)
                (AList.update (hd (Split path))
                   \<lparr>info = \<lparr>name = hd (Split path), size' = int (length data), modified = now,
                             mode = perm\<rparr>,
                    opener = Some LazyAccess, content = data\<rparr>
                   (files d))))
      else (case map_of (dirs d) (hd (Split path)) of
              None \<Rightarrow> (Some (Err ErrNotExist), d)
            | Some sub \<Rightarrow>
                (fst (dir_WriteFile sub (Join (tl (Split path))) data perm now),
                 Directory (dinfo d)
                   (AList.update (hd (Split path))
                      (snd (dir_WriteFile sub (Join (tl (Split path))) data perm now)) (dirs d))
                   (files d))))"
  by pat_completeness auto
termination
  by (relation "measure (\<lambda>(d, path, data, perm, now). length path)")
     (auto simp: length_Join_tl_Split Split_multi_not_Nil)

declare dir_WriteFile.simps [simp del]

definition WriteFile ::
  "memFS \<Rightarrow> string \<Rightarrow> byte list \<Rightarrow> FileMode \<Rightarrow> time \<Rightarrow> error option \<times> memFS" where
  "WriteFile m path data perm now =
     (fst (dir_WriteFile (dir m) (cleanse path) data perm now),
      m\<lparr>dir := snd (dir_WriteFile (dir m) (cleanse path) data perm now)\<rparr>)"

text \<open>
  \<open>dir.writeLazyFile\<close>, which \<open>SnapshotFS\<close> calls with the opener of a file of the base
  tree.
\<close>

function dir_writeLazyFile ::
  "dir \<Rightarrow> string \<Rightarrow> lazyOpener \<Rightarrow> FileMode \<Rightarrow> time \<Rightarrow> error option \<times> dir" where
  "dir_writeLazyFile d path opn perm now =
     (if perm AND ModeDir \<noteq> 0 then (Some (InvalidPerm perm), d)
      else if length (Split path) = 1 then
        (None,
         Directory (dinfo d) (dirs d)
           (AList.update (hd (Split path))
              \<lparr>info = \<lparr>name = hd (Split path), size' = 0, modified = now, mode = perm\<rparr>,
               opener = Some opn, content = []\<rparr>
              (files d)))
      else (case map_of (dirs d) (hd (Split path)) of
              None \<Rightarrow> (Some (Err ErrNotExist), d)
            | Some sub \<Rightarrow>
                (fst (dir_writeLazyFile sub (Join (tl (Split path))) opn perm now),
                 Directory (dinfo d)
                   (AList.update (hd (Split path))
                      (snd (dir_writeLazyFile sub (Join (tl (Split path))) opn perm now)) (dirs d))
                   (files d))))"
  by pat_completeness auto
termination
  by (relation "measure (\<lambda>(d, path, opn, perm, now). length path)")
     (auto simp: length_Join_tl_Split Split_multi_not_Nil)

declare dir_writeLazyFile.simps [simp del]

definition writeLazyFile ::
  "memFS \<Rightarrow> string \<Rightarrow> lazyOpener \<Rightarrow> FileMode \<Rightarrow> time \<Rightarrow> error option \<times> memFS" where
  "writeLazyFile m path opn perm now =
     (fst (dir_writeLazyFile (dir m) (cleanse path) opn perm now),
      m\<lparr>dir := snd (dir_writeLazyFile (dir m) (cleanse path) opn perm now)\<rparr>)"

text \<open>
  \<open>os.O_CREATE\<close> and \<open>os.O_TRUNC\<close> are the values of package \<open>syscall\<close> on Linux.
  In \<open>OpenFile\<close> the handle of an existing file is opened on the node found before the
  truncation, which \<open>dir.WriteFile\<close> overwrites in place: the model reads the node again
  from the tree that \<open>dir.WriteFile\<close> returns.
\<close>

definition O_CREATE :: int where
  "O_CREATE = 0x40"

definition O_TRUNC :: int where
  "O_TRUNC = 0x200"

definition OpenFile ::
  "memFS \<Rightarrow> string \<Rightarrow> int \<Rightarrow> FileMode \<Rightarrow> time \<Rightarrow> (error + handle) \<times> memFS" where
  "OpenFile m nm flag perm now =
     (case getFile (dir m) (cleanse nm) of
        Inr f \<Rightarrow>
          (if flag AND O_TRUNC \<noteq> 0 then
             (case dir_WriteFile (dir m) (cleanse nm) [] perm now of
                (Some e, d') \<Rightarrow> (Inl e, m\<lparr>dir := d'\<rparr>)
              | (None, d') \<Rightarrow>
                  ((case getFile d' (cleanse nm) of
                      Inr f' \<Rightarrow> file_open f'
                    | Inl _ \<Rightarrow> file_open f),
                   m\<lparr>dir := d'\<rparr>))
           else (file_open f, m))
      | Inl _ \<Rightarrow>
          (if flag AND O_CREATE \<noteq> 0 then
             (case dir_WriteFile (dir m) (cleanse nm) [] perm now of
                (Some e, d') \<Rightarrow> (Inl e, m\<lparr>dir := d'\<rparr>)
              | (None, d') \<Rightarrow>
                  ((case getFile d' (cleanse nm) of
                      Inr f' \<Rightarrow> file_open f'
                    | Inl _ \<Rightarrow> Inl (PathError ''openfile'' (cleanse nm) ErrNotExist)),
                   m\<lparr>dir := d'\<rparr>))
           else (Inl (PathError ''openfile'' (cleanse nm) ErrNotExist), m)))"

subsection \<open>Creating directories\<close>

function dir_MkdirAll :: "dir \<Rightarrow> string \<Rightarrow> FileMode \<Rightarrow> time \<Rightarrow> error option \<times> dir" where
  "dir_MkdirAll d path perm now =
     (if path = [] then (None, d)
      else if map_of (files d) (hd (Split path)) \<noteq> None then (Some (Err ErrExist), d)
      else
        (let perm1 = (if perm AND ModeDir = 0 then perm OR ModeDir else perm);
             ds = (if map_of (dirs d) (hd (Split path)) = None
                   then AList.update (hd (Split path))
                          (Directory \<lparr>name = hd (Split path), size' = 0x100, modified = now,
                                      mode = perm1\<rparr> [] [])
                          (dirs d)
                   else dirs d);
             d1 = Directory ((dinfo d)\<lparr>modified := now\<rparr>) ds (files d)
         in if length (Split path) = 1 then (None, d1)
            else (fst (dir_MkdirAll (the (map_of ds (hd (Split path)))) (Join (tl (Split path)))
                         perm1 now),
                  Directory (dinfo d1)
                    (AList.update (hd (Split path))
                       (snd (dir_MkdirAll (the (map_of ds (hd (Split path))))
                               (Join (tl (Split path))) perm1 now))
                       ds)
                    (files d1))))"
  by pat_completeness auto
termination
  by (relation "measure (\<lambda>(d, path, perm, now). length path)")
     (auto simp: length_Join_tl_Split)

declare dir_MkdirAll.simps [simp del]

definition MkdirAll :: "memFS \<Rightarrow> string \<Rightarrow> FileMode \<Rightarrow> time \<Rightarrow> error option \<times> memFS" where
  "MkdirAll m path perm now =
     (fst (dir_MkdirAll (dir m) (cleanse path) perm now),
      m\<lparr>dir := snd (dir_MkdirAll (dir m) (cleanse path) perm now)\<rparr>)"


subsection \<open>Removing\<close>

text \<open>
  A loop over a list whose body may fail to return: \<open>None\<close> is a call that never returns.
\<close>

fun fold_option :: "('a \<Rightarrow> 'b \<Rightarrow> 'b option) \<Rightarrow> 'a list \<Rightarrow> 'b \<Rightarrow> 'b option" where
  "fold_option f [] a = Some a"
| "fold_option f (x # xs) a = Option.bind (f x a) (fold_option f xs)"

lemma fold_option_mono [partial_function_mono]:
  assumes "\<And>x a. mono_option (\<lambda>f. F f x a)"
  shows "mono_option (\<lambda>f. fold_option (F f) xs a)"
proof (induction xs arbitrary: a)
  case Nil
  show ?case by (simp add: option.const_mono)
next
  case (Cons x xs)
  show ?case
    unfolding fold_option.simps
    by (rule bind_mono) (rule assms, rule Cons.IH)
qed


text \<open>
  \<open>dir.removePath\<close>. For a single segment that names a non-empty directory \<open>sub\<close>,
  the recursive branch holds the write lock of \<open>d\<close> and calls \<open>sub.removePath\<close> for
  the stored name of every child directory, then of every child file, dropping their
  results, and unlinks \<open>sub\<close> from \<open>d\<close>. A \<open>range\<close> over a Go map does not produce an
  entry removed before it is reached, hence the test that the key is still present.
  With the empty name \<open>getDir\<close> returns \<open>d\<close> itself, the inner call asks for the read
  lock of \<open>d\<close> under its write lock and blocks for ever: the result is \<open>None\<close>.
\<close>

partial_function (option) removePath ::
  "dir \<Rightarrow> string \<Rightarrow> bool \<Rightarrow> (error option \<times> dir) option" where
  "removePath d nm recursive =
     (if length (Split nm) = 1 then
        (if map_of (files d) nm \<noteq> None then
           Some (None, Directory (dinfo d) (dirs d) (AList.delete nm (files d)))
         else
           (case getDir d (hd (Split nm)) of
              Inl e \<Rightarrow> Some (Some (Err ErrNotExist), d)
            | Inr sub \<Rightarrow>
                (if dirs sub = [] \<and> files sub = [] then
                   Some (None, Directory (dinfo d) (AList.delete (hd (Split nm)) (dirs d)) (files d))
                 else if recursive then
                   (if hd (Split nm) = [] then None
                    else
                      Option.bind
                        (fold_option
                           (\<lambda>e cur.
                              if map_of (dirs cur) (fst e) = None then Some cur
                              else Option.bind (removePath cur (name (dinfo (snd e))) recursive)
                                     (\<lambda>res. Some (snd res)))
                           (dirs sub) sub)
                        (\<lambda>sub1.
                           Option.bind
                             (fold_option
                                (\<lambda>e cur.
                                   if map_of (files cur) (fst e) = None then Some cur
                                   else Option.bind
                                          (removePath cur (name (info (snd e))) recursive)
                                          (\<lambda>res. Some (snd res)))
                                (files sub1) sub1)
                             (\<lambda>sub2.
                                Some (None,
                                      Directory (dinfo d) (AList.delete (hd (Split nm)) (dirs d))
                                        (files d)))))
                 else Some (Some (Err ErrInvalid), d))))
      else
        (case getDir d (hd (Split nm)) of
           Inl e \<Rightarrow> Some (Some e, d)
         | Inr sub \<Rightarrow>
             Option.bind (removePath sub (Join (tl (Split nm))) recursive)
               (\<lambda>res.
                  Some (fst res,
                        if hd (Split nm) = [] then snd res
                        else Directory (dinfo d) (AList.update (hd (Split nm)) (snd res) (dirs d))
                               (files d)))))"


definition dir_Remove :: "dir \<Rightarrow> string \<Rightarrow> (error option \<times> dir) option" where
  "dir_Remove d nm = (if nm = [] \<or> nm = ''.'' then Some (None, d) else removePath d nm False)"

definition dir_RemoveAll :: "dir \<Rightarrow> string \<Rightarrow> (error option \<times> dir) option" where
  "dir_RemoveAll d nm = (if nm = [] \<or> nm = ''.'' then Some (None, d) else removePath d nm True)"

definition Remove :: "memFS \<Rightarrow> string \<Rightarrow> (error option \<times> memFS) option" where
  "Remove m path =
     Option.bind (dir_Remove (dir m) (cleanse path)) (\<lambda>res. Some (fst res, m\<lparr>dir := snd res\<rparr>))"

definition RemoveAll :: "memFS \<Rightarrow> string \<Rightarrow> (error option \<times> memFS) option" where
  "RemoveAll m path =
     Option.bind (dir_RemoveAll (dir m) (cleanse path))
       (\<lambda>res. Some (fst res, m\<lparr>dir := snd res\<rparr>))"

text \<open>The entries of a directory in the order \<open>dir.ReadDir\<close> collects them.\<close>

definition entries :: "dir \<Rightarrow> fileinfo list" where
  "entries d = map (\<lambda>e. info (snd e)) (files d) @ map (\<lambda>e. dinfo (snd e)) (dirs d)"


text \<open>
  The names the constructors of nodes write: a single non-empty path segment. A tree is
  well named when every node below its root has such a name.
\<close>

definition ok_name :: "string \<Rightarrow> bool" where
  "ok_name s = (s \<noteq> [] \<and> separator \<notin> set s)"

fun names_ok :: "dir \<Rightarrow> bool" where
  "names_ok (Directory i ds fs) =
     (list_all (\<lambda>e. ok_name (name (dinfo (snd e))) \<and> names_ok (snd e)) ds
      \<and> list_all (\<lambda>e. ok_name (name (info (snd e)))) fs)"



text \<open>
  Example trees: \<open>MkdirAll("a/b", 0755)\<close> on a new filesystem, then
  \<open>WriteFile("a/b/f", [1, 2, 3], 0644)\<close>. Octal 755 is \<open>0x1ED\<close>, octal 644 is \<open>0x1A4\<close>.
\<close>

definition tree_a_b :: memFS where
  "tree_a_b = snd (MkdirAll (newMemFS 0) ''a/b'' 0x1ED 1)"

definition tree_a_b_f :: memFS where
  "tree_a_b_f = snd (WriteFile tree_a_b ''a/b/f'' [1, 2, 3] 0x1A4 2)"

definition tree_f :: memFS where
  "tree_f = snd (WriteFile (newMemFS 0) ''f'' [] 0x1A4 1)"

text \<open>
  A file \<open>f\<close> written by \<open>writeLazyFile\<close> over a base file that cannot be written to.
\<close>

definition tree_lazy :: memFS where
  "tree_lazy = snd (writeLazyFile (newMemFS 0) ''f'' (BaseOpener NotWriter) 0x1A4 1)"

declare removePath.simps [code]

text \<open>A tree without its modification times of directories.\<close>

fun untimed :: "dir \<Rightarrow> dir" where
  "untimed (Directory i ds fs) =
     Directory (i\<lparr>modified := 0\<rparr>) (map (\<lambda>e. (fst e, untimed (snd e))) ds) fs"


text \<open>A normalized name: empty, or without an empty segment.\<close>

definition clean_name :: "string \<Rightarrow> bool" where
  "clean_name nm = (nm = [] \<or> [] \<notin> set (Split nm))"


text \<open>
  The filesystems that the operations build from a new one. Every directory below the
  root of such a filesystem is well named; a file in the root may have the empty name,
  which \<open>WriteFile\<close> gives it for a path that normalizes to the empty string.
\<close>

inductive reachable :: "memFS \<Rightarrow> bool" where
  reach_new: "reachable (newMemFS now)"
| reach_MkdirAll: "reachable m \<Longrightarrow> reachable (snd (MkdirAll m p perm now))"
| reach_WriteFile: "reachable m \<Longrightarrow> reachable (snd (WriteFile m p data perm now))"
| reach_writeLazyFile: "reachable m \<Longrightarrow> reachable (snd (writeLazyFile m p opn perm now))"
| reach_OpenFile: "reachable m \<Longrightarrow> reachable (snd (OpenFile m p flag perm now))"
| reach_Remove: "reachable m \<Longrightarrow> Remove m p = Some (r, m') \<Longrightarrow> reachable m'"
| reach_RemoveAll: "reachable m \<Longrightarrow> RemoveAll m p = Some (r, m') \<Longrightarrow> reachable m'"

definition dirs_ok :: "dir \<Rightarrow> bool" where
  "dirs_ok d = list_all (\<lambda>e. ok_name (name (dinfo (snd e))) \<and> names_ok (snd e)) (dirs d)"


section \<open>Variables and environments (package \<open>expand\<close>)\<close>

text \<open>
  \<open>expand.Variable\<close> of the library \<open>mvdan.cc/sh/v3\<close>, with \<open>IsSet\<close> and \<open>String\<close>. An
  \<open>expand.Environ\<close> is read with \<open>Get\<close>, which gives the zero \<open>Variable\<close> for a name it
  does not hold; it is a map here.
\<close>

datatype ValueKind = Unknown | String | NameRef | Indexed | Associative | KeepValue

record Variable =
  Set :: bool
  Local :: bool
  Exported :: bool
  ReadOnly :: bool
  Kind :: ValueKind
  Str :: string
  List :: "string list"
  Map :: "(string \<times> string) list"

definition zero_Variable :: Variable where
  "zero_Variable =
     \<lparr>Set = False, Local = False, Exported = False, ReadOnly = False, Kind = Unknown,
      Str = [], List = [], Map = []\<rparr>"

definition IsSet :: "Variable \<Rightarrow> bool" where
  "IsSet v = Set v"

definition Variable_String :: "Variable \<Rightarrow> string" where
  "Variable_String v =
     (case Kind v of
        String \<Rightarrow> Str v
      | Indexed \<Rightarrow> (case List v of [] \<Rightarrow> [] | x # _ \<Rightarrow> x)
      | _ \<Rightarrow> [])"

type_synonym Environ = "string \<rightharpoonup> Variable"

definition Environ_Get :: "Environ \<Rightarrow> string \<Rightarrow> Variable" where
  "Environ_Get env nm = (case env nm of Some v \<Rightarrow> v | None \<Rightarrow> zero_Variable)"

section \<open>Command lookup (handler.go)\<close>

text \<open>
  \<open>checkStat\<close> calls \<open>os.Stat\<close>, the stat of the host operating system: \<open>host\<close> is what
  the host answers for a path, an error or the mode of the node. The lookup takes no
  filesystem handle.
\<close>

datatype look_error =
    OsError string
  | IsADirectory
  | PermissionDenied
  | ExecutableNotFound string

type_synonym host_fs = "string \<Rightarrow> look_error + FileMode"

text \<open>Octal 111, the execute bits, is \<open>0x49\<close>.\<close>

definition checkStat :: "host_fs \<Rightarrow> string \<Rightarrow> string \<Rightarrow> look_error + string" where
  "checkStat host dr fl =
     (let fl1 = (if \<not> IsAbs fl then path_Join [dr, fl] else fl)
      in case host fl1 of
           Inl err \<Rightarrow> Inl err
         | Inr m \<Rightarrow>
             if IsDir m then Inl IsADirectory
             else if m AND 0x49 = 0 then Inl PermissionDenied
             else Inr fl1)"

text \<open>\<open>strings.Split(s, ":")\<close>.\<close>

fun SplitList :: "string \<Rightarrow> string list" where
  "SplitList [] = [[]]"
| "SplitList (c # cs) =
     (if c = CHR '':'' then [] # SplitList cs
      else (c # hd (SplitList cs)) # tl (SplitList cs))"

definition candidate :: "string \<Rightarrow> string \<Rightarrow> string" where
  "candidate elem fl =
     (if elem = [] \<or> elem = ''.'' then ''./'' @ fl else path_Join [elem, fl])"

fun lookPathDir_loop :: "host_fs \<Rightarrow> string \<Rightarrow> string \<Rightarrow> string list \<Rightarrow> look_error + string" where
  "lookPathDir_loop host cwd fl [] = Inl (ExecutableNotFound fl)"
| "lookPathDir_loop host cwd fl (elem # pathList) =
     (case checkStat host cwd (candidate elem fl) of
        Inr f \<Rightarrow> Inr f
      | Inl err \<Rightarrow> lookPathDir_loop host cwd fl pathList)"

definition pathList :: "Environ \<Rightarrow> string list" where
  "pathList env =
     (let l = SplitList (Variable_String (Environ_Get env ''PATH''))
      in if length l = 0 then [[]] else l)"

definition lookPathDir :: "host_fs \<Rightarrow> string \<Rightarrow> Environ \<Rightarrow> string \<Rightarrow> look_error + string" where
  "lookPathDir host cwd env fl = lookPathDir_loop host cwd fl (pathList env)"

text \<open>The path a candidate is stat'ed at, and whether the host makes it a hit.\<close>

definition resolve :: "string \<Rightarrow> string \<Rightarrow> string" where
  "resolve cwd p = (if \<not> IsAbs p then path_Join [cwd, p] else p)"

definition hit :: "host_fs \<Rightarrow> string \<Rightarrow> string \<Rightarrow> string \<Rightarrow> bool" where
  "hit host cwd fl elem =
     (case host (resolve cwd (candidate elem fl)) of
        Inl err \<Rightarrow> False
      | Inr m \<Rightarrow> \<not> IsDir m \<and> m AND 0x49 \<noteq> 0)"

definition string_Variable :: "string \<Rightarrow> Variable" where
  "string_Variable s = zero_Variable\<lparr>Set := True, Kind := String, Str := s\<rparr>"

text \<open>Hosts and an environment for the examples; \<open>PATH="/bin:/usr/bin"\<close>.\<close>

definition env_path :: Environ where
  "env_path = [''PATH'' \<mapsto> string_Variable ''/bin:/usr/bin'']"

definition host_empty :: host_fs where
  "host_empty p = Inl (OsError ''no such file or directory'')"

definition host_pipe :: host_fs where
  "host_pipe p =
     (if p = ''/usr/bin/foo'' then Inr (ModeNamedPipe OR 0x1ED)
      else Inl (OsError ''no such file or directory''))"

definition host_noexec :: host_fs where
  "host_noexec p =
     (if p = ''/bin/foo'' then Inr 0x1A4
      else if p = ''/usr/bin/foo'' then Inr 0x1ED
      else if p = ''/usr/bin'' then Inr (ModeDir OR 0x1ED)
      else Inl (OsError ''no such file or directory''))"


section \<open>The environment overlay\<close>

text \<open>
  Modelled from the spec: the type \<open>overlayEnviron\<close> with \<open>newOverlayEnviron\<close>, \<open>Get\<close>,
  \<open>Set\<close> and \<open>Each\<close>, and the methods \<open>setVar\<close> and \<open>setVarString\<close> of the Runner, are
  not among the sources. The spec has a lookup chain: the local layer is checked first,
  then each parent layer in order, finally the immutable base, and an absent name is
  unset; a write lands in the local layer only; \<open>Each\<close> enumerates the merged view in
  which local shadows parent shadows base; a background layer is guarded in addition.

  An overlay is a Go pointer, and a child layer holds the pointer to its parent. The
  layers live in a store, a list indexed by address; an overlay value is the address of
  its local layer, the addresses of its ancestors and the base.
\<close>

record layer =
  "values" :: Environ
  guarded :: bool

type_synonym env_store = "layer list"

record overlayEnviron =
  local_layer :: nat
  parents :: "nat list"
  base :: Environ

text \<open>
  Modelled from the spec: \<open>overlayEnviron.Get\<close>, absent from the sources. The local layer
  first, then each parent, finally the base; an address that is not allocated holds
  nothing.
\<close>

fun chain_Get :: "env_store \<Rightarrow> nat list \<Rightarrow> Environ \<Rightarrow> string \<Rightarrow> Variable" where
  "chain_Get st [] b nm = Environ_Get b nm"
| "chain_Get st (a # as) b nm =
     (if a < length st then
        (case values (st ! a) nm of
           Some v \<Rightarrow> v
         | None \<Rightarrow> chain_Get st as b nm)
      else chain_Get st as b nm)"

definition overlay_Get :: "env_store \<Rightarrow> overlayEnviron \<Rightarrow> string \<Rightarrow> Variable" where
  "overlay_Get st h nm = chain_Get st (local_layer h # parents h) (base h) nm"

text \<open>
  Modelled from the spec: \<open>overlayEnviron.Set\<close>, absent from the sources. The write lands
  in the local layer.
\<close>

definition overlay_Set :: "env_store \<Rightarrow> overlayEnviron \<Rightarrow> string \<Rightarrow> Variable \<Rightarrow> env_store" where
  "overlay_Set st h nm vr =
     (if local_layer h < length st
      then st[local_layer h :=
                (st ! local_layer h)\<lparr>values := (values (st ! local_layer h))(nm \<mapsto> vr)\<rparr>]
      else st)"

text \<open>
  Modelled from the spec: \<open>overlayEnviron.Each\<close>, absent from the sources. The merged view,
  in which local shadows parent shadows base.
\<close>

fun chain_Each :: "env_store \<Rightarrow> nat list \<Rightarrow> Environ \<Rightarrow> Environ" where
  "chain_Each st [] b = b"
| "chain_Each st (a # as) b =
     (if a < length st then chain_Each st as b ++ values (st ! a) else chain_Each st as b)"

definition overlay_Each :: "env_store \<Rightarrow> overlayEnviron \<Rightarrow> Environ" where
  "overlay_Each st h = chain_Each st (local_layer h # parents h) (base h)"

text \<open>
  Modelled from the spec: \<open>newOverlayEnviron\<close>, absent from the sources. A fresh layer
  over the parent, guarded for a background copy.
\<close>

definition newOverlayEnviron ::
  "env_store \<Rightarrow> overlayEnviron \<Rightarrow> bool \<Rightarrow> env_store \<times> overlayEnviron" where
  "newOverlayEnviron st parent background =
     (st @ [\<lparr>values = Map.empty, guarded = background\<rparr>],
      \<lparr>local_layer = length st, parents = local_layer parent # parents parent,
       base = base parent\<rparr>)"

text \<open>
  Modelled from the spec: the literal \<open>&overlayEnviron{parent: r.Env}\<close> of a type absent
  from the sources, a first layer directly over the base.
\<close>

definition overlay_over_base :: "env_store \<Rightarrow> Environ \<Rightarrow> env_store \<times> overlayEnviron" where
  "overlay_over_base st env =
     (st @ [\<lparr>values = Map.empty, guarded = False\<rparr>],
      \<lparr>local_layer = length st, parents = [], base = env\<rparr>)"

section \<open>The Runner\<close>

text \<open>
  The fields of \<open>Runner\<close>. Statements, commands, contexts, streams, the filesystem and
  the command table are values of other packages or shared references: natural numbers
  name them. \<open>Env\<close> "must not be nil" and is an environment; \<open>writeEnv\<close> is \<open>nil\<close>
  until the first \<open>Reset\<close>. \<open>ecfg\<close> is written by \<open>fillExpandConfig\<close> only and is left
  to it.
\<close>

type_synonym stmt = nat
type_synonym command = nat
type_synonym ctx = nat
type_synonym stream = nat

datatype run_error =
    ExitStatus "8 word"
  | HandlerError string
  | NodeTypeError string

record bgProc =
  "done" :: bool
  exit' :: "int option"

record "alias" =
  args :: "nat list"
  blank :: bool

record getopts =
  argidx :: int
  runeidx :: int

record Runner =
  Env :: Environ
  writeEnv :: "overlayEnviron option"
  Dir :: string
  Params :: "string list"
  Vars :: Environ
  Funcs :: "string \<rightharpoonup> stmt"
  TTY :: bool
  FileSystem :: "nat option"
  Commands :: "nat option"
  "alias" :: "string \<rightharpoonup> alias"
  stdin :: "stream option"
  stdout :: "stream option"
  stderr :: "stream option"
  ectx :: "ctx option"
  lastExpandExit :: int
  didReset :: bool
  filename :: string
  breakEnclosing :: int
  contnEnclosing :: int
  inLoop :: bool
  inFunc :: bool
  inSource :: bool
  handlingTrap :: bool
  sourceSetParams :: bool
  noErrExit :: bool
  fatalErr :: "run_error option"
  returning :: bool
  exiting :: bool
  nonFatalHandlerErr :: "run_error option"
  "exit" :: int
  lastExit :: int
  bgProcs :: "bgProc list"
  opts :: "bool list"
  origDir :: string
  origParams :: "string list"
  origOpts :: "bool list"
  origStdin :: "stream option"
  origStdout :: "stream option"
  origStderr :: "stream option"
  dirStack :: "string list"
  optState :: getopts
  keepRedirs :: bool
  callbackErr :: string
  callbackExit :: string

text \<open>The zero value \<open>Runner{}\<close>; \<open>runnerOpts\<close> is an array of seven booleans.\<close>

definition zero_Runner :: Runner where
  "zero_Runner =
     \<lparr>Env = Map.empty, writeEnv = None, Dir = [], Params = [], Vars = Map.empty,
      Funcs = Map.empty, TTY = False, FileSystem = None, Commands = None, alias = Map.empty,
      stdin = None, stdout = None, stderr = None, ectx = None, lastExpandExit = 0,
      didReset = False, filename = [], breakEnclosing = 0, contnEnclosing = 0, inLoop = False,
      inFunc = False, inSource = False, handlingTrap = False, sourceSetParams = False,
      noErrExit = False, fatalErr = None, returning = False, exiting = False,
      nonFatalHandlerErr = None, exit = 0, lastExit = 0, bgProcs = [],
      opts = replicate 7 False, origDir = [], origParams = [], origOpts = replicate 7 False,
      origStdin = None, origStdout = None, origStderr = None, dirStack = [],
      optState = \<lparr>argidx = 0, runeidx = 0\<rparr>, keepRedirs = False, callbackErr = [],
      callbackExit = []\<rparr>"

text \<open>\<open>NewRunner\<close> without options, for a filesystem and a command table just made.\<close>

definition NewRunner :: "nat \<Rightarrow> nat \<Rightarrow> Runner" where
  "NewRunner fs cmds =
     zero_Runner\<lparr>FileSystem := Some fs, Dir := ''/'', TTY := True, Commands := Some cmds\<rparr>"

definition WithEnv :: "Environ \<Rightarrow> Runner \<Rightarrow> Runner" where
  "WithEnv env r = r\<lparr>Env := env\<rparr>"

text \<open>
  Modelled from the spec: \<open>Runner.setVar\<close>, absent from the sources, writes the variable
  into the overlay of the Runner.
\<close>

definition setVar :: "overlayEnviron \<Rightarrow> string \<Rightarrow> Variable \<Rightarrow> env_store \<Rightarrow> env_store" where
  "setVar h nm vr st = overlay_Set st h nm vr"

text \<open>
  Modelled from the spec: \<open>Runner.setVarString\<close>, absent from the sources, writes a set
  string variable.
\<close>

definition setVarString :: "overlayEnviron \<Rightarrow> string \<Rightarrow> string \<Rightarrow> env_store \<Rightarrow> env_store" where
  "setVarString h nm s st = setVar h nm (string_Variable s) st"

definition readonly_Variable :: "string \<Rightarrow> Variable" where
  "readonly_Variable s = zero_Variable\<lparr>Set := True, Kind := String, ReadOnly := True, Str := s\<rparr>"

definition seed_unless_set ::
  "overlayEnviron \<Rightarrow> string \<Rightarrow> Variable \<Rightarrow> env_store \<Rightarrow> env_store" where
  "seed_unless_set h nm vr st =
     (if \<not> IsSet (overlay_Get st h nm) then setVar h nm vr st else st)"

text \<open>The default \<open>IFS\<close> is space, tab, newline.\<close>

definition default_IFS :: string where
  "default_IFS = [CHR '' '', CHR 0x09, CHR 0x0A]"

definition Reset :: "Runner \<Rightarrow> env_store \<Rightarrow> Runner \<times> env_store" where
  "Reset r st =
     (let r0 = (if \<not> didReset r
                then r\<lparr>origDir := Dir r, origParams := Params r, origOpts := opts r,
                       origStdin := stdin r, origStdout := stdout r, origStderr := stderr r\<rparr>
                else r);
          r1 = zero_Runner
                 \<lparr>Env := Env r0,
                  Dir := origDir r0, Params := origParams r0, opts := origOpts r0,
                  stdin := origStdin r0, stdout := origStdout r0, stderr := origStderr r0,
                  origDir := origDir r0, origParams := origParams r0, origOpts := origOpts r0,
                  origStdin := origStdin r0, origStdout := origStdout r0,
                  origStderr := origStderr r0,
                  Vars := Map.empty, dirStack := [],
                  TTY := TTY r0, FileSystem := FileSystem r0, Commands := Commands r0\<rparr>;
          st1 = fst (overlay_over_base st (Env r1));
          h = snd (overlay_over_base st (Env r1));
          st2 = seed_unless_set h ''HOME'' (string_Variable ''/'') st1;
          st3 = seed_unless_set h ''UID'' (readonly_Variable ''0'') st2;
          st4 = seed_unless_set h ''EUID'' (readonly_Variable ''0'') st3;
          st5 = seed_unless_set h ''GID'' (readonly_Variable ''0'') st4;
          st6 = setVarString h ''PWD'' (Dir r1) st5;
          st7 = setVarString h ''IFS'' default_IFS st6;
          st8 = setVarString h ''OPTIND'' ''1'' st7
      in (r1\<lparr>writeEnv := Some h, dirStack := [Dir r1], didReset := True\<rparr>, st8))"

text \<open>
  \<open>Run\<close>. The statement executor (\<open>stmts\<close>, \<open>stmt\<close>, \<open>cmd\<close>, \<open>exitShell\<close>) and
  \<open>fillExpandConfig\<close> are not among the sources: they are parameters, state transformers
  on the Runner and the store of layers; an executor that does not return gives \<open>None\<close>.
  A \<open>syntax.Node\<close> is a file, a statement, a command, or a node of another type, of which
  only the type name matters. \<open>ExitStatus(r.exit)\<close> converts an \<open>int\<close> to a \<open>uint8\<close>.
  \<open>maps.Insert(r.Vars, r.writeEnv.Each)\<close> needs the overlay: on a \<open>nil\<close> one the call
  panics and \<open>Run\<close> returns nothing.
\<close>

datatype node = File string "stmt list" | Stmt stmt | Command command | OtherNode string

type_synonym world = "Runner \<times> env_store"

record executor =
  fillExpandConfig :: "ctx option \<Rightarrow> world \<Rightarrow> world"
  stmts :: "ctx \<Rightarrow> stmt list \<Rightarrow> world \<Rightarrow> world option"
  stmt :: "ctx \<Rightarrow> stmt \<Rightarrow> world \<Rightarrow> world option"
  cmd :: "ctx \<Rightarrow> command \<Rightarrow> world \<Rightarrow> world option"
  exitShell :: "ctx \<Rightarrow> int \<Rightarrow> world \<Rightarrow> world option"

definition clear_flags :: "world \<Rightarrow> world" where
  "clear_flags w =
     ((fst w)\<lparr>fatalErr := None, returning := False, exiting := False, filename := []\<rparr>, snd w)"

definition reconcile :: "world \<Rightarrow> (run_error option \<times> world) option" where
  "reconcile w =
     (case writeEnv (fst w) of
        None \<Rightarrow> None
      | Some h \<Rightarrow>
          (let r = (fst w)\<lparr>Vars := Vars (fst w) ++ overlay_Each (snd w) h\<rparr>
           in Some (if fatalErr r \<noteq> None then fatalErr r
                    else if nonFatalHandlerErr r \<noteq> None then nonFatalHandlerErr r
                    else if exit r \<noteq> 0 then Some (ExitStatus (word_of_int (exit r)))
                    else None,
                    (r, snd w))))"

definition Run :: "executor \<Rightarrow> ctx \<Rightarrow> node \<Rightarrow> world \<Rightarrow> (run_error option \<times> world) option" where
  "Run ex c nd w =
     (let w1 = (if \<not> didReset (fst w) then Reset (fst w) (snd w) else w);
          w2 = clear_flags (fillExpandConfig ex (Some c) w1)
      in case nd of
           File nm ss \<Rightarrow>
             Option.bind (stmts ex c ss ((fst w2)\<lparr>filename := nm\<rparr>, snd w2))
               (\<lambda>w3. Option.bind
                        (if \<not> exiting (fst w3) then exitShell ex c (exit (fst w3)) w3
                         else Some w3)
                        reconcile)
         | Stmt s \<Rightarrow> Option.bind (stmt ex c s w2) reconcile
         | Command cm \<Rightarrow> Option.bind (cmd ex c cm w2) reconcile
         | OtherNode ty \<Rightarrow> Some (Some (NodeTypeError ty), w2))"

text \<open>
  \<open>subshell\<close> returns the copy; the parent is reset first if it never was.
  \<open>fillExpandConfig\<close> on the copy is the executor's.
\<close>

definition subshell :: "executor \<Rightarrow> bool \<Rightarrow> world \<Rightarrow> (Runner \<times> world) option" where
  "subshell ex background w =
     (let w1 = (if \<not> didReset (fst w) then Reset (fst w) (snd w) else w);
          r = fst w1
      in case writeEnv r of
           None \<Rightarrow> None
         | Some h \<Rightarrow>
             (let st2 = fst (newOverlayEnviron (snd w1) h background);
                  h2 = snd (newOverlayEnviron (snd w1) h background);
                  r2 = zero_Runner
                         \<lparr>Dir := Dir r, Params := Params r, stdin := stdin r, stdout := stdout r,
                          stderr := stderr r, filename := filename r, opts := opts r,
                          exit := exit r, lastExit := lastExit r, origStdout := origStdout r,
                          TTY := TTY r, Commands := Commands r, FileSystem := FileSystem r,
                          writeEnv := Some h2, Funcs := Funcs r, Vars := Map.empty,
                          alias := alias r, dirStack := dirStack r\<rparr>;
                  w3 = fillExpandConfig ex (ectx r) (r2, st2)
              in Some ((fst w3)\<lparr>didReset := True\<rparr>, (r, snd w3))))"


text \<open>What a lookup in the overlay of the Runner gives after \<open>Reset\<close>.\<close>

definition Reset_env :: "Runner \<Rightarrow> env_store \<Rightarrow> string \<Rightarrow> Variable" where
  "Reset_env r st nm =
     (case writeEnv (fst (Reset r st)) of
        None \<Rightarrow> zero_Variable
      | Some h \<Rightarrow> overlay_Get (snd (Reset r st)) h nm)"

text \<open>Executors and environments for the examples.\<close>

definition env_ifs :: Environ where
  "env_ifs = [''IFS'' \<mapsto> string_Variable '':'']"

definition ex_idle :: executor where
  "ex_idle =
     \<lparr>fillExpandConfig = (\<lambda>c w. ((fst w)\<lparr>ectx := c\<rparr>, snd w)),
      stmts = (\<lambda>c ss w. Some w), stmt = (\<lambda>c s w. Some w), cmd = (\<lambda>c cm w. Some w),
      exitShell = (\<lambda>c n w. Some ((fst w)\<lparr>exiting := True, exit := n\<rparr>, snd w))\<rparr>"

definition ex_fail :: executor where
  "ex_fail =
     ex_idle\<lparr>stmt :=
               (\<lambda>c s w. Some ((fst w)\<lparr>fatalErr := Some (HandlerError ''boom''), exit := 3\<rparr>,
                               snd w))\<rparr>"

definition run_other :: "(run_error option \<times> world) option" where
  "run_other = Run ex_idle 0 (OtherNode ''*syntax.Word'') (NewRunner 0 0, [])"

definition run_fail :: "(run_error option \<times> world) option" where
  "run_fail = Run ex_fail 0 (Stmt 0) (NewRunner 0 0, [])"

text \<open>The Runner as the type switch of that \<open>Run\<close> finds it.\<close>

definition run_fail_start :: world where
  "run_fail_start =
     clear_flags (fillExpandConfig ex_fail (Some 0) (Reset (NewRunner 0 0) []))"


definition env_home :: Environ where
  "env_home = [''HOME'' \<mapsto> string_Variable ''/root'']"

text \<open>
  A parent that was reset and then set \<open>X=1\<close>, and the subshell forked from it.
\<close>

definition parent_demo :: world where
  "parent_demo =
     (fst (Reset (NewRunner 0 0) []),
      setVar (the (writeEnv (fst (Reset (NewRunner 0 0) [])))) ''X'' (string_Variable ''1'')
        (snd (Reset (NewRunner 0 0) [])))"

definition sub_demo :: "(Runner \<times> world) option" where
  "sub_demo = subshell ex_idle False parent_demo"

text \<open>A filesystem that holds the executable \<open>/bin/foo\<close>.\<close>

definition vfs_bin_foo :: memFS where
  "vfs_bin_foo =
     snd (WriteFile (snd (MkdirAll (newMemFS 0) ''bin'' 0x1ED 1)) ''bin/foo'' [1] 0x1ED 2)"

section \<open>Facts about paths\<close>

lemma Split_no_separator: "x \<in> set (Split s) \<Longrightarrow> separator \<notin> set x"
proof (induction s arbitrary: x)
  case Nil
  then show ?case by simp
next
  case (Cons c cs)
  obtain p ps where ps: "Split cs = p # ps"
    using Split_not_Nil [of cs] by (cases "Split cs") auto
  with Cons show ?case by (auto split: if_splits)
qed

lemma Join_Split: "Join (Split s) = s"
proof (induction s)
  case Nil
  show ?case by simp
next
  case (Cons c cs)
  obtain p ps where ps: "Split cs = p # ps"
    using Split_not_Nil [of cs] by (cases "Split cs") auto
  with Cons show ?case by (cases ps) auto
qed

lemma Split_no_sep: "separator \<notin> set s \<Longrightarrow> Split s = [s]"
  by (induction s) auto

lemma Split_append_sep:
  "separator \<notin> set p \<Longrightarrow> Split (p @ separator # s) = p # Split s"
  by (induction p) auto

lemma Split_Join:
  "ps \<noteq> [] \<Longrightarrow> \<forall>x\<in>set ps. separator \<notin> set x \<Longrightarrow> Split (Join ps) = ps"
proof (induction ps rule: Join.induct)
  case 1
  then show ?case by simp
next
  case (2 p)
  then show ?case by (simp add: Split_no_sep)
next
  case (3 p q ps)
  then show ?case by (simp add: Split_append_sep)
qed

lemma Split_single: "Split s = [p] \<Longrightarrow> s = p"
  using Join_Split [of s] by simp

lemma Split_tl: "Split s = p # q # ps \<Longrightarrow> Split (Join (tl (Split s))) = q # ps"
  using Split_no_separator [of _ s] by (simp add: Split_Join)


text \<open>
  The output buffer of \<open>path.Clean\<close> is always a join of non-empty segments, after the
  root separator of a rooted path.
\<close>

definition segs_ok :: "string list \<Rightarrow> bool" where
  "segs_ok segs = (\<forall>s\<in>set segs. s \<noteq> [] \<and> separator \<notin> set s)"

definition buf :: "bool \<Rightarrow> string list \<Rightarrow> string" where
  "buf rooted segs = (if rooted then [separator] else []) @ Join segs"


lemma Join_snoc: "Join (segs @ [x]) = (if segs = [] then x else Join segs @ separator # x)"
  by (induction segs rule: Join.induct) auto

lemma Join_eq_Nil: "segs_ok segs \<Longrightarrow> Join segs = [] \<longleftrightarrow> segs = []"
  by (cases segs rule: Join.cases) (auto simp: segs_ok_def)

lemma length_Join_append: "length (Join xs) \<le> length (Join (xs @ ys))"
proof (induction xs rule: Join.induct)
  case 1
  show ?case by simp
next
  case (2 p)
  show ?case by (cases ys) auto
next
  case (3 p q ps)
  then show ?case by simp
qed

lemma length_Join_take: "length (Join (take k xs)) \<le> length (Join xs)"
  using length_Join_append [of "take k xs" "drop k xs"] by simp

lemma lastSlash_scan:
  "dotdot \<le> n \<Longrightarrow> n \<le> w \<Longrightarrow> (\<forall>i. n < i \<and> i \<le> w \<longrightarrow> out ! i \<noteq> separator) \<Longrightarrow>
   n = dotdot \<or> out ! n = separator \<Longrightarrow> lastSlash out dotdot w = n"
proof (induction out dotdot w rule: lastSlash.induct)
  case (1 out dotdot w)
  show ?case
  proof (cases "n = w")
    case True
    with "1.prems" show ?thesis by (subst lastSlash.simps) auto
  next
    case False
    with "1.prems" have lt: "n < w" by simp
    with "1.prems" have c: "w > dotdot \<and> out ! w \<noteq> separator" by auto
    have a: "n \<le> w - 1" using lt by simp
    have b: "\<forall>i. n < i \<and> i \<le> w - 1 \<longrightarrow> out ! i \<noteq> separator"
      using "1.prems"(3) by auto
    have "lastSlash out dotdot (w - 1) = n"
      by (rule "1.IH" [OF c "1.prems"(1) a b "1.prems"(4)])
    with c show ?thesis by (subst lastSlash.simps) simp
  qed
qed

lemma buf_backtrack:
  assumes "segs_ok segs" "k < length segs"
  shows "take (lastSlash (buf rooted segs) (length (buf rooted (take k segs)))
                 (length (buf rooted segs) - 1)) (buf rooted segs)
         = buf rooted (butlast segs)"
proof -
  from assms(2) obtain ini l where segs: "segs = ini @ [l]"
    by (metis length_0_conv less_nat_zero_code rev_exhaust)
  from assms(1) segs have l: "l \<noteq> []" "separator \<notin> set l"
    by (auto simp: segs_ok_def)
  let ?B = "buf rooted ini"
  let ?out = "buf rooted segs"
  let ?dd = "length (buf rooted (take k segs))"
  have tk: "take k segs = take k ini" using assms(2) segs by simp
  show ?thesis
  proof (cases "ini = []")
    case True
    then have out: "?out = ?B @ l" by (simp add: segs buf_def)
    have "k = 0" using assms(2) segs True by simp
    then have dd: "?dd = length ?B" using True by (simp add: buf_def)
    have "lastSlash ?out ?dd (length ?out - 1) = length ?B"
    proof (rule lastSlash_scan)
      show "?dd \<le> length ?B" using dd by simp
      show "length ?B \<le> length ?out - 1" using out l by (cases l) auto
      show "\<forall>i. length ?B < i \<and> i \<le> length ?out - 1 \<longrightarrow> ?out ! i \<noteq> separator"
      proof (intro allI impI)
        fix i
        assume i: "length ?B < i \<and> i \<le> length ?out - 1"
        then have "i - length ?B < length l" using out l by (cases l) auto
        moreover have "?out ! i = l ! (i - length ?B)"
          using i by (simp add: out nth_append)
        ultimately show "?out ! i \<noteq> separator" using l(2) by (metis nth_mem)
      qed
      show "length ?B = ?dd \<or> ?out ! length ?B = separator" using dd by simp
    qed
    with out True show ?thesis by (simp add: segs)
  next
    case False
    then have out: "?out = ?B @ separator # l" by (simp add: segs buf_def Join_snoc)
    have dd: "?dd \<le> length ?B" using tk length_Join_take [of k ini] by (simp add: buf_def)
    have "lastSlash ?out ?dd (length ?out - 1) = length ?B"
    proof (rule lastSlash_scan)
      show "?dd \<le> length ?B" using dd by simp
      show "length ?B \<le> length ?out - 1" using out by simp
      show "\<forall>i. length ?B < i \<and> i \<le> length ?out - 1 \<longrightarrow> ?out ! i \<noteq> separator"
      proof (intro allI impI)
        fix i
        assume i: "length ?B < i \<and> i \<le> length ?out - 1"
        then have "i - length ?B - 1 < length l" using out by auto
        moreover have "?out ! i = l ! (i - length ?B - 1)"
          using i by (simp add: out nth_append nth_Cons')
        ultimately show "?out ! i \<noteq> separator" using l(2) by (metis nth_mem)
      qed
      show "length ?B = ?dd \<or> ?out ! length ?B = separator" using out by simp
    qed
    with out False show ?thesis by (simp add: segs)
  qed
qed


lemma segs_ok_butlast: "segs_ok segs \<Longrightarrow> segs_ok (butlast segs)"
  by (auto simp: segs_ok_def dest: in_set_butlastD)

lemma segs_ok_snoc: "segs_ok segs \<Longrightarrow> x \<noteq> [] \<Longrightarrow> separator \<notin> set x \<Longrightarrow> segs_ok (segs @ [x])"
  by (auto simp: segs_ok_def)

lemma buf_snoc:
  "segs_ok segs \<Longrightarrow>
   buf rooted (segs @ [x])
   = (if (rooted \<and> length (buf rooted segs) \<noteq> 1) \<or> (\<not> rooted \<and> length (buf rooted segs) \<noteq> 0)
      then buf rooted segs @ [separator] else buf rooted segs) @ x"
  using Join_eq_Nil [of segs] by (auto simp: buf_def Join_snoc)

lemma clean_loop_segs:
  "segs_ok segs \<Longrightarrow> k \<le> length segs \<Longrightarrow> out = buf rooted segs \<Longrightarrow>
   dotdot = length (buf rooted (take k segs)) \<Longrightarrow>
   \<exists>segs'. clean_loop rooted rest out dotdot = buf rooted segs' \<and> segs_ok segs'"
proof (induction rooted rest out dotdot arbitrary: segs k rule: clean_loop.induct)
  case (1 rooted out dotdot)
  then show ?case by auto
next
  case (2 rooted c cs out dotdot)
  note ok = "2.prems"(1) and kle = "2.prems"(2) and out = "2.prems"(3) and dd = "2.prems"(4)
  show ?case
  proof (cases "c = separator")
    case True
    have eq: "clean_loop rooted (c # cs) out dotdot = clean_loop rooted cs out dotdot"
      using True by (simp only: clean_loop.simps(2) if_True if_False simp_thms)
    show ?thesis unfolding eq by (rule "2.IH"(1) [OF True "2.prems"])
  next
    case ns: False
    show ?thesis
    proof (cases "c = CHR ''.'' \<and> (cs = [] \<or> hd cs = separator)")
      case True
      have eq: "clean_loop rooted (c # cs) out dotdot = clean_loop rooted cs out dotdot"
        using ns True by (simp only: clean_loop.simps(2) if_True if_False simp_thms)
      show ?thesis unfolding eq by (rule "2.IH"(2) [OF ns True "2.prems"])
    next
      case nd: False
      show ?thesis
      proof (cases "c = CHR ''.'' \<and> hd cs = CHR ''.'' \<and> (tl cs = [] \<or> hd (tl cs) = separator)")
        case dd2: True
        show ?thesis
        proof (cases "dotdot < length out")
          case True
          have klt: "k < length segs"
          proof (rule ccontr)
            assume "\<not> k < length segs"
            with kle have "take k segs = segs" by simp
            with True out dd show False by simp
          qed
          have bt: "take (lastSlash out dotdot (length out - 1)) out = buf rooted (butlast segs)"
            using buf_backtrack [OF ok klt, of rooted] out dd by simp
          have k': "k \<le> length (butlast segs)" using klt by simp
          have dd': "dotdot = length (buf rooted (take k (butlast segs)))"
            using dd klt by (simp add: take_butlast)
          have eq: "clean_loop rooted (c # cs) out dotdot
                    = clean_loop rooted (tl cs) (take (lastSlash out dotdot (length out - 1)) out)
                        dotdot"
            using ns nd dd2 True by (simp only: clean_loop.simps(2) if_True if_False simp_thms)
          show ?thesis unfolding eq
            by (rule "2.IH"(3) [OF ns nd dd2 True segs_ok_butlast [OF ok] k' bt dd'])
        next
          case nb: False
          show ?thesis
          proof (cases rooted)
            case True
            have eq: "clean_loop rooted (c # cs) out dotdot = clean_loop rooted (tl cs) out dotdot"
              using ns nd dd2 nb True by (simp only: clean_loop.simps(2) if_True if_False simp_thms)
            have nn: "\<not> \<not> rooted" using True by simp
            show ?thesis unfolding eq
              by (rule "2.IH"(5) [OF ns nd dd2 nb nn "2.prems"])
          next
            case nr: False
            let ?out' = "(if out \<noteq> [] then out @ [separator] else out) @ ''..''"
            have ok': "segs_ok (segs @ [''..''])"
              using ok by (rule segs_ok_snoc) (simp_all add: separator_def)
            have out': "?out' = buf rooted (segs @ [''..''])"
              using nr out by (simp add: buf_snoc [OF ok])
            have dd': "length ?out'
                       = length (buf rooted (take (length (segs @ [''..''])) (segs @ [''..''])))"
              using out' by simp
            have eq: "clean_loop rooted (c # cs) out dotdot
                      = clean_loop rooted (tl cs) ?out' (length ?out')"
              using ns nd dd2 nb nr by (simp only: clean_loop.simps(2) if_True if_False simp_thms)
            show ?thesis unfolding eq
              by (rule "2.IH"(4) [OF ns nd dd2 nb nr ok' order_refl out' dd'])
          qed
        qed
      next
        case el: False
        let ?x = "takeWhile (\<lambda>x. x \<noteq> separator) (c # cs)"
        let ?out' = "(if (rooted \<and> length out \<noteq> 1) \<or> (\<not> rooted \<and> length out \<noteq> 0)
                      then out @ [separator] else out) @ ?x"
        have x: "?x \<noteq> []" "separator \<notin> set ?x"
          using ns by (auto dest: set_takeWhileD)
        have ok': "segs_ok (segs @ [?x])" using ok x by (rule segs_ok_snoc)
        have out': "?out' = buf rooted (segs @ [?x])"
          using out by (simp only: buf_snoc [OF ok])
        have k': "k \<le> length (segs @ [?x])" using kle by simp
        have dd': "dotdot = length (buf rooted (take k (segs @ [?x])))"
          using dd kle by simp
        have eq: "clean_loop rooted (c # cs) out dotdot
                  = clean_loop rooted (dropWhile (\<lambda>x. x \<noteq> separator) (c # cs)) ?out' dotdot"
          using ns nd el by (simp only: clean_loop.simps(2) if_True if_False simp_thms)
        show ?thesis unfolding eq
          by (rule "2.IH"(6) [OF ns nd el ok' k' out' dd'])
      qed
    qed
  qed
qed


lemma Clean_segs:
  "Clean p = ''.''
   \<or> (\<exists>segs. segs_ok segs \<and> Clean p = separator # Join segs)
   \<or> (\<exists>segs. segs_ok segs \<and> segs \<noteq> [] \<and> Clean p = Join segs)"
proof (cases "p = []")
  case True
  then show ?thesis by (simp add: Clean_def)
next
  case False
  let ?rooted = "hd p = separator"
  let ?out = "clean_loop ?rooted (if ?rooted then tl p else p)
                (if ?rooted then [separator] else []) (if ?rooted then 1 else 0)"
  have "\<exists>segs'. ?out = buf ?rooted segs' \<and> segs_ok segs'"
    by (rule clean_loop_segs [of "[]" 0]) (simp_all add: segs_ok_def buf_def)
  then obtain segs where segs: "?out = buf ?rooted segs" "segs_ok segs" by blast
  have C: "Clean p = (if ?out = [] then ''.'' else ?out)"
    using False by (simp add: Clean_def Let_def)
  show ?thesis
  proof (cases ?rooted)
    case True
    with segs C show ?thesis by (auto simp: buf_def)
  next
    case nr: False
    show ?thesis
    proof (cases "segs = []")
      case True
      with segs nr C show ?thesis by (simp add: buf_def)
    next
      case False
      with segs nr C Join_eq_Nil [of segs] show ?thesis by (auto simp: buf_def)
    qed
  qed
qed

lemma Join_hd: "segs_ok segs \<Longrightarrow> segs \<noteq> [] \<Longrightarrow> Join segs \<noteq> [] \<and> hd (Join segs) \<noteq> separator"
  by (cases segs rule: Join.cases) (auto simp: segs_ok_def hd_append dest: hd_in_set)

lemma TrimPrefix_dot_slash:
  assumes "segs_ok segs"
  shows "\<exists>segs'. segs_ok segs' \<and> TrimPrefix (Join segs) (''.'' @ [separator]) = Join segs'"
proof (cases "take (Suc (Suc 0)) (Join segs) = ''.'' @ [separator]")
  case False
  with assms show ?thesis by (auto simp: TrimPrefix_def)
next
  case True
  show ?thesis
  proof (cases segs rule: Join.cases)
    case 1
    with True show ?thesis by simp
  next
    case (2 s)
    have "separator \<in> set (take (Suc (Suc 0)) (Join segs))"
      using True by simp
    then have "separator \<in> set s"
      using 2 by (auto dest: in_set_takeD)
    with assms 2 show ?thesis by (simp add: segs_ok_def)
  next
    case (3 s q ss)
    from assms 3 have s: "s \<noteq> []" "separator \<notin> set s" by (auto simp: segs_ok_def)
    have "s = ''.''"
    proof (cases s)
      case Nil
      with s show ?thesis by simp
    next
      case (Cons a as)
      show ?thesis
      proof (cases as)
        case Nil
        with Cons True 3 show ?thesis by simp
      next
        case (Cons b bs)
        with \<open>s = a # as\<close> True 3 s show ?thesis by simp
      qed
    qed
    with 3 have "TrimPrefix (Join segs) (''.'' @ [separator]) = Join (q # ss)"
      by (simp add: TrimPrefix_def)
    moreover have "segs_ok (q # ss)" using assms 3 by (simp add: segs_ok_def)
    ultimately show ?thesis by blast
  qed
qed

lemma cleanse_Join:
  "cleanse p = [] \<or> (\<exists>segs. segs_ok segs \<and> segs \<noteq> [] \<and> cleanse p = Join segs)"
proof -
  have sepdot: "separator \<noteq> CHR ''.''" by (simp add: separator_def)
  consider (dot) "Clean p = ''.''"
    | (rooted) segs where "segs_ok segs" "Clean p = separator # Join segs"
    | (rel) segs where "segs_ok segs" "segs \<noteq> []" "Clean p = Join segs"
    using Clean_segs [of p] by blast
  then show ?thesis
  proof cases
    case dot
    then show ?thesis by (simp add: cleanse_def TrimPrefix_def separator_def)
  next
    case rooted
    then have "cleanse p = (if Join segs = ''.'' then [] else Join segs)"
      using sepdot by (simp add: cleanse_def TrimPrefix_def)
    with rooted(1) Join_eq_Nil [of segs] show ?thesis by (cases "segs = []") auto
  next
    case rel
    from TrimPrefix_dot_slash [OF rel(1)] obtain segs' where
      s': "segs_ok segs'" "TrimPrefix (Join segs) (''.'' @ [separator]) = Join segs'"
      by blast
    have "TrimPrefix (Join segs') [separator] = Join segs'"
      using Join_hd [OF s'(1)] by (cases "segs' = []") (auto simp: TrimPrefix_def take_Suc)
    then have "cleanse p = (if Join segs' = ''.'' then [] else Join segs')"
      using rel(3) s'(2) by (simp add: cleanse_def)
    with s'(1) show ?thesis by (cases "segs' = []") auto
  qed
qed

lemma cleanse_segments: "cleanse p \<noteq> [] \<Longrightarrow> [] \<notin> set (Split (cleanse p))"
proof -
  assume "cleanse p \<noteq> []"
  with cleanse_Join [of p] obtain segs where
    segs: "segs_ok segs" "segs \<noteq> []" "cleanse p = Join segs"
    by blast
  then have "Split (cleanse p) = segs"
    by (simp add: Split_Join segs_ok_def)
  with segs(1) show ?thesis by (auto simp: segs_ok_def)
qed

section \<open>Facts about the tree operations\<close>

lemma getDir_Nil: "getDir d [] = Inr d"
  by (subst getDir.simps) simp

lemma map_sort_key: "map f (sort_key f xs) = sort (map f xs)"
  by (rule properties_for_sort [symmetric]) simp_all

lemma dir_ReadDir_getDir:
  "dir_ReadDir d nm =
     (case getDir d nm of
        Inl e \<Rightarrow> Inl (Err ErrNotExist)
      | Inr sub \<Rightarrow> Inr (sort_key name (entries sub)))"
proof (induction d nm rule: getDir.induct)
  case (1 d nm)
  show ?case
  proof (cases "nm = []")
    case True
    then show ?thesis
      by (simp add: getDir_Nil dir_ReadDir.simps [of d "[]"] entries_def)
  next
    case False
    show ?thesis
    proof (cases "map_of (dirs d) (hd (Split nm))")
      case None
      with False show ?thesis
        by (simp add: getDir.simps [of d nm] dir_ReadDir.simps [of d nm])
    next
      case (Some f)
      with False "1.IH" [OF False Some] show ?thesis
        by (simp add: getDir.simps [of d nm] dir_ReadDir.simps [of d nm])
    qed
  qed
qed

lemma names_order_independent:
  "mset xs = mset ys \<Longrightarrow> map name (sort_key name xs) = map name (sort_key name ys)"
proof -
  assume "mset xs = mset ys"
  then have "mset (map name xs) = mset (map name ys)"
    by (metis mset_map)
  then have "sort (map name ys) = sort (map name xs)"
    by (intro properties_for_sort) simp_all
  then show ?thesis
    by (simp add: map_sort_key)
qed


lemma fold_option_inv:
  assumes "I a"
    and "\<And>x b. x \<in> set xs \<Longrightarrow> I b \<Longrightarrow> \<exists>b'. f x b = Some b' \<and> I b'"
  shows "\<exists>a'. fold_option f xs a = Some a' \<and> I a'"
  using assms
proof (induction xs arbitrary: a)
  case Nil
  then show ?case by simp
next
  case (Cons x xs)
  from Cons.prems obtain b where b: "f x a = Some b" "I b"
    by (meson list.set_intros(1))
  from Cons.IH [OF b(2)] Cons.prems(2) obtain a' where "fold_option f xs b = Some a'" "I a'"
    by (meson list.set_intros(2))
  with b show ?case by simp
qed

lemma size_child: "map_of (dirs d) k = Some f \<Longrightarrow> size f < size d"
proof -
  assume a: "map_of (dirs d) k = Some f"
  obtain i ds fs where d: "d = Directory i ds fs" by (cases d)
  from a d have "(k, f) \<in> set ds" by (auto dest: map_of_SomeD)
  then have "size_prod (\<lambda>x. 0) size (k, f) \<le> size_list (size_prod (\<lambda>x. 0) size) ds"
    by (rule size_list_estimation') simp
  with d show ?thesis by simp
qed

lemma size_delete_dir: "size (Directory i (AList.delete k ds) fs) \<le> size (Directory i ds fs)"
  by (induction ds) auto

lemma names_ok_child: "names_ok d \<Longrightarrow> map_of (dirs d) k = Some f \<Longrightarrow> names_ok f"
  by (cases d) (auto simp: list_all_iff dest!: map_of_SomeD)

lemma names_ok_delete_dir:
  "names_ok d \<Longrightarrow> names_ok (Directory (dinfo d) (AList.delete k (dirs d)) (files d))"
  by (cases d) (auto simp: list_all_iff AList.delete_eq)

lemma names_ok_delete_file:
  "names_ok d \<Longrightarrow> names_ok (Directory (dinfo d) (dirs d) (AList.delete k (files d)))"
  by (cases d) (auto simp: list_all_iff AList.delete_eq)

lemma names_ok_dir_name:
  "names_ok d \<Longrightarrow> e \<in> set (dirs d) \<Longrightarrow> ok_name (name (dinfo (snd e)))"
  by (cases d) (auto simp: list_all_iff)

lemma names_ok_file_name:
  "names_ok d \<Longrightarrow> e \<in> set (files d) \<Longrightarrow> ok_name (name (info (snd e)))"
  by (cases d) (auto simp: list_all_iff)

lemma getDir_single:
  "ok_name nm \<Longrightarrow>
   getDir d nm = (case map_of (dirs d) nm of None \<Rightarrow> Inl (Err ErrNotExist) | Some f \<Rightarrow> Inr f)"
  by (subst getDir.simps) (simp add: ok_name_def Split_no_sep getDir_Nil split: option.splits)

lemma removePath_name_returns:
  assumes "names_ok d" "ok_name nm"
  shows "\<exists>r d'. removePath d nm True = Some (r, d') \<and> names_ok d' \<and> size d' \<le> size d"
  using assms
proof (induction "size d" arbitrary: d nm rule: less_induct)
  case less
  have sp: "Split nm = [nm]" and ne: "nm \<noteq> []"
    using less.prems(2) by (simp_all add: ok_name_def Split_no_sep)
  show ?case
  proof (cases "map_of (files d) nm")
    case (Some f0)
    then have "removePath d nm True
               = Some (None, Directory (dinfo d) (dirs d) (AList.delete nm (files d)))"
      by (subst removePath.simps) (simp add: sp)
    moreover have "size (Directory (dinfo d) (dirs d) (AList.delete nm (files d))) \<le> size d"
      by (cases d) simp
    ultimately show ?thesis
      using names_ok_delete_file [OF less.prems(1)] by blast
  next
    case None
    note nofile = None
    show ?thesis
    proof (cases "map_of (dirs d) nm")
      case None
      then have "removePath d nm True = Some (Some (Err ErrNotExist), d)"
        using nofile
        by (subst removePath.simps) (simp add: sp getDir_single [OF less.prems(2)])
      then show ?thesis using less.prems(1) by blast
    next
      case (Some f)
      have gd: "getDir d nm = Inr f"
        using Some by (simp add: getDir_single [OF less.prems(2)])
      have okf: "names_ok f" using names_ok_child [OF less.prems(1) Some] .
      have szf: "size f < size d" using size_child [OF Some] .
      have del: "names_ok (Directory (dinfo d) (AList.delete nm (dirs d)) (files d))"
        using names_ok_delete_dir [OF less.prems(1)] .
      have szd: "size (Directory (dinfo d) (AList.delete nm (dirs d)) (files d)) \<le> size d"
        using size_delete_dir [of "dinfo d" nm "dirs d" "files d"] by (cases d) simp
      show ?thesis
      proof (cases "dirs f = [] \<and> files f = []")
        case True
        then have "removePath d nm True
                   = Some (None, Directory (dinfo d) (AList.delete nm (dirs d)) (files d))"
          using nofile gd by (subst removePath.simps) (simp add: sp)
        then show ?thesis using del szd by blast
      next
        case False
        let ?I = "\<lambda>cur. names_ok cur \<and> size cur \<le> size f"
        let ?F1 = "\<lambda>e cur.
                     if map_of (dirs cur) (fst e) = None then Some cur
                     else Option.bind (removePath cur (name (dinfo (snd e))) True)
                            (\<lambda>res. Some (snd res))"
        let ?F2 = "\<lambda>e cur.
                     if map_of (files cur) (fst e) = None then Some cur
                     else Option.bind (removePath cur (name (info (snd e))) True)
                            (\<lambda>res. Some (snd res))"
        have step: "\<exists>b'. Option.bind (removePath b n True) (\<lambda>res. Some (snd res)) = Some b'
                         \<and> ?I b'"
          if "?I b" "ok_name n" for b n
        proof -
          from that szf have "size b < size d" by simp
          from less.hyps [OF this] that obtain r b' where
            "removePath b n True = Some (r, b')" "names_ok b'" "size b' \<le> size b"
            by blast
          with that show ?thesis by simp
        qed
        have "\<exists>sub1. fold_option ?F1 (dirs f) f = Some sub1 \<and> ?I sub1"
        proof (rule fold_option_inv)
          show "?I f" using okf by simp
        next
          fix x b
          assume "x \<in> set (dirs f)" "?I b"
          then show "\<exists>b'. ?F1 x b = Some b' \<and> ?I b'"
            using step [of b "name (dinfo (snd x))"] names_ok_dir_name [OF okf] by simp
        qed
        then obtain sub1 where s1: "fold_option ?F1 (dirs f) f = Some sub1" "?I sub1"
          by blast
        have "\<exists>sub2. fold_option ?F2 (files sub1) sub1 = Some sub2 \<and> ?I sub2"
        proof (rule fold_option_inv)
          show "?I sub1" using s1 by simp
        next
          fix x b
          assume "x \<in> set (files sub1)" "?I b"
          then show "\<exists>b'. ?F2 x b = Some b' \<and> ?I b'"
            using step [of b "name (info (snd x))"] names_ok_file_name [of sub1] s1(2) by simp
        qed
        then obtain sub2 where s2: "fold_option ?F2 (files sub1) sub1 = Some sub2"
          by blast
        have "removePath d nm True
              = Some (None, Directory (dinfo d) (AList.delete nm (dirs d)) (files d))"
          using nofile gd False ne s1(1) s2
          by (subst removePath.simps) (simp add: sp)
        then show ?thesis using del szd by blast
      qed
    qed
  qed
qed

lemma removal_loops_return:
  assumes "names_ok f"
  shows "\<exists>sub1 sub2.
           fold_option
             (\<lambda>e cur. if map_of (dirs cur) (fst e) = None then Some cur
                       else Option.bind (removePath cur (name (dinfo (snd e))) True)
                              (\<lambda>res. Some (snd res)))
             (dirs f) f = Some sub1
         \<and> fold_option
             (\<lambda>e cur. if map_of (files cur) (fst e) = None then Some cur
                       else Option.bind (removePath cur (name (info (snd e))) True)
                              (\<lambda>res. Some (snd res)))
             (files sub1) sub1 = Some sub2"
proof -
  let ?F1 = "\<lambda>e cur. if map_of (dirs cur) (fst e) = None then Some cur
                       else Option.bind (removePath cur (name (dinfo (snd e))) True)
                              (\<lambda>res. Some (snd res))"
  let ?F2 = "\<lambda>e cur. if map_of (files cur) (fst e) = None then Some cur
                       else Option.bind (removePath cur (name (info (snd e))) True)
                              (\<lambda>res. Some (snd res))"
  have step: "\<exists>b'. Option.bind (removePath b n True) (\<lambda>res. Some (snd res)) = Some b'
                   \<and> names_ok b'"
    if "names_ok b" "ok_name n" for b n
    using removePath_name_returns [OF that] by auto
  have "\<exists>sub1. fold_option ?F1 (dirs f) f = Some sub1 \<and> names_ok sub1"
  proof (rule fold_option_inv)
    show "names_ok f" by (rule assms)
  next
    fix x b
    assume "x \<in> set (dirs f)" "names_ok b"
    then show "\<exists>b'. ?F1 x b = Some b' \<and> names_ok b'"
      using step [of b "name (dinfo (snd x))"] names_ok_dir_name [OF assms] by simp
  qed
  then obtain sub1 where s1: "fold_option ?F1 (dirs f) f = Some sub1" "names_ok sub1"
    by blast
  have "\<exists>sub2. fold_option ?F2 (files sub1) sub1 = Some sub2 \<and> names_ok sub2"
  proof (rule fold_option_inv)
    show "names_ok sub1" by (rule s1)
  next
    fix x b
    assume "x \<in> set (files sub1)" "names_ok b"
    then show "\<exists>b'. ?F2 x b = Some b' \<and> names_ok b'"
      using step [of b "name (info (snd x))"] names_ok_file_name [OF s1(2)] by simp
  qed
  with s1 show ?thesis by blast
qed

lemma removePath_single_dir:
  assumes "ok_name nm" "map_of (files d) nm = None" "map_of (dirs d) nm = Some f" "names_ok f"
  shows "removePath d nm True
         = Some (None, Directory (dinfo d) (AList.delete nm (dirs d)) (files d))"
proof -
  have sp: "Split nm = [nm]" and ne: "nm \<noteq> []"
    using assms(1) by (simp_all add: ok_name_def Split_no_sep)
  have gd: "getDir d nm = Inr f"
    using assms(3) by (simp add: getDir_single [OF assms(1)])
  from removal_loops_return [OF assms(4)] obtain sub1 sub2 where
    "fold_option
       (\<lambda>e cur. if map_of (dirs cur) (fst e) = None then Some cur
                 else Option.bind (removePath cur (name (dinfo (snd e))) True)
                        (\<lambda>res. Some (snd res)))
       (dirs f) f = Some sub1"
    "fold_option
       (\<lambda>e cur. if map_of (files cur) (fst e) = None then Some cur
                 else Option.bind (removePath cur (name (info (snd e))) True)
                        (\<lambda>res. Some (snd res)))
       (files sub1) sub1 = Some sub2"
    by blast
  then show ?thesis
    using assms(2) gd ne by (subst removePath.simps) (simp add: sp)
qed

lemma removePath_single_dir_plain:
  assumes "ok_name nm" "map_of (files d) nm = None" "map_of (dirs d) nm = Some f"
    "dirs f \<noteq> [] \<or> files f \<noteq> []"
  shows "removePath d nm False = Some (Some (Err ErrInvalid), d)"
proof -
  have sp: "Split nm = [nm]"
    using assms(1) by (simp add: ok_name_def Split_no_sep)
  have gd: "getDir d nm = Inr f"
    using assms(3) by (simp add: getDir_single [OF assms(1)])
  show ?thesis
    using assms(2,4) gd by (subst removePath.simps) (auto simp: sp)
qed

lemma getFile_single:
  "separator \<notin> set nm \<Longrightarrow>
   getFile d nm = (case map_of (files d) nm of None \<Rightarrow> Inl (Err ErrNotExist) | Some f \<Rightarrow> Inr f)"
  by (subst getFile.simps) (simp add: Split_no_sep split: option.splits)

lemma removePath_populated:
  assumes "[] \<notin> set (Split nm)" "getDir d nm = Inr sub" "dirs sub \<noteq> [] \<or> files sub \<noteq> []"
    "getFile d nm = Inl e" "names_ok sub"
  shows "(\<exists>d'. removePath d nm True = Some (None, d')
             \<and> getDir d' nm = Inl (Err ErrNotExist) \<and> getFile d' nm = Inl (Err ErrNotExist))
         \<and> removePath d nm False = Some (Some (Err ErrInvalid), d)"
  using assms
proof (induction d nm arbitrary: e rule: getDir.induct)
  case (1 d nm)
  have ne: "nm \<noteq> []" using "1.prems"(1) by auto
  obtain p ps where sp: "Split nm = p # ps"
    using Split_not_Nil [of nm] by (cases "Split nm") auto
  have okp: "ok_name p"
    using "1.prems"(1) Split_no_separator [of p nm] sp by (auto simp: ok_name_def)
  from "1.prems"(2) ne sp obtain f where f: "map_of (dirs d) p = Some f"
    and gf: "getDir f (Join ps) = Inr sub"
    by (subst (asm) getDir.simps) (auto split: option.splits)
  show ?case
  proof (cases ps)
    case Nil
    with sp have nm: "nm = p" by (simp add: Split_single)
    from gf Nil have sub: "sub = f" by (simp add: getDir_Nil)
    from "1.prems"(4) okp nm have nofile: "map_of (files d) nm = None"
      by (simp add: getFile_single ok_name_def split: option.splits)
    let ?d' = "Directory (dinfo d) (AList.delete nm (dirs d)) (files d)"
    have "removePath d nm True = Some (None, ?d')"
      using removePath_single_dir [of nm d f] okp nm nofile f "1.prems"(5) sub by simp
    moreover have "getDir ?d' nm = Inl (Err ErrNotExist)"
      using okp nm by (simp add: getDir_single AList.delete_conv')
    moreover have "getFile ?d' nm = Inl (Err ErrNotExist)"
      using okp nm nofile by (simp add: getFile_single ok_name_def)
    moreover have "removePath d nm False = Some (Some (Err ErrInvalid), d)"
      using removePath_single_dir_plain [of nm d f] okp nm nofile f "1.prems"(3) sub by simp
    ultimately show ?thesis by blast
  next
    case (Cons q qs)
    let ?rest = "Join (tl (Split nm))"
    have rest: "?rest = Join ps" using sp by simp
    have sr: "Split ?rest = ps" using Split_tl [of nm p q qs] sp Cons by simp
    have multi: "length (Split nm) \<noteq> 1" using sp Cons by simp
    have gdp: "getDir d p = Inr f" using f by (simp add: getDir_single [OF okp])
    from "1.prems"(4) multi sp gdp have gfile: "getFile f (Join ps) = Inl e"
      by (subst (asm) getFile.simps) simp
    have "[] \<notin> set (Split ?rest)" using "1.prems"(1) sp sr by auto
    from "1.IH" [OF ne _ this, of f e] f sp gf "1.prems"(3,5) gfile rest
    obtain f' where f': "removePath f (Join ps) True = Some (None, f')"
      "getDir f' (Join ps) = Inl (Err ErrNotExist)" "getFile f' (Join ps) = Inl (Err ErrNotExist)"
      and plain: "removePath f (Join ps) False = Some (Some (Err ErrInvalid), f)"
      by auto
    let ?d' = "Directory (dinfo d) (AList.update p f' (dirs d)) (files d)"
    have pne: "p \<noteq> []" using okp by (simp add: ok_name_def)
    have "removePath d nm True = Some (None, ?d')"
      using multi sp gdp f'(1) pne by (subst removePath.simps) simp
    moreover have "getDir ?d' nm = Inl (Err ErrNotExist)"
      using ne sp f'(2) by (subst getDir.simps) (simp add: AList.update_conv')
    moreover have "getDir ?d' p = Inr f'"
      by (simp add: getDir_single [OF okp] AList.update_conv')
    then have "getFile ?d' nm = Inl (Err ErrNotExist)"
      using multi sp f'(3) by (subst getFile.simps) simp
    moreover have "removePath d nm False = Some (Some (Err ErrInvalid), d)"
      using multi sp gdp plain pne f
      by (subst removePath.simps) (simp add: AList.update_triv)
    ultimately show ?thesis by blast
  qed
qed

lemma cleanse_not_dot: "cleanse p \<noteq> ''.''"
  by (simp add: cleanse_def Let_def)

lemma getDir_error: "getDir d nm = Inl e \<Longrightarrow> e = Err ErrNotExist"
proof (induction d nm rule: getDir.induct)
  case (1 d nm)
  from "1.prems" show ?case
    by (subst (asm) getDir.simps) (auto split: if_splits option.splits dest: "1.IH")
qed

lemma getFile_error: "getFile d nm = Inl e \<Longrightarrow> e = Err ErrNotExist"
proof (induction d nm rule: getFile.induct)
  case (1 d nm)
  show ?case
  proof (cases "length (Split nm) = 1")
    case True
    with "1.prems" show ?thesis
      by (subst (asm) getFile.simps) (auto split: option.splits)
  next
    case False
    show ?thesis
    proof (cases "getDir d (hd (Split nm))")
      case (Inl e')
      with "1.prems" False show ?thesis
        by (subst (asm) getFile.simps) (auto dest: getDir_error)
    next
      case (Inr sub)
      with "1.prems" False have "getFile sub (Join (tl (Split nm))) = Inl e"
        by (subst (asm) getFile.simps) simp
      then show ?thesis by (rule "1.IH" [OF False Inr])
    qed
  qed
qed

lemma dir_MkdirAll_error: "fst (dir_MkdirAll d path perm now) = Some e \<Longrightarrow> e = Err ErrExist"
proof (induction d path perm now rule: dir_MkdirAll.induct)
  case (1 d path perm now)
  from "1.prems" show ?case
    by (subst (asm) dir_MkdirAll.simps)
       (auto simp: Let_def split: if_splits dest: "1.IH" [OF _ _ refl refl refl])
qed

lemma overwrite_error:
  "fst (overwrite f data perm now) = Some e \<Longrightarrow>
   e = MissingOpener \<or> e = CannotWrite \<or> (\<exists>s. e = FailedToRead (BaseError s)) \<or> (\<exists>s. e = BaseError s)"
  by (auto simp: overwrite_def Let_def split: option.splits if_splits lazyOpener.splits base_file.splits)

lemma dir_WriteFile_error:
  "fst (dir_WriteFile d path data perm now) = Some e \<Longrightarrow>
   e = Err ErrNotExist \<or> e = InvalidPerm perm \<or> e = MissingOpener \<or> e = CannotWrite
   \<or> (\<exists>s. e = FailedToRead (BaseError s)) \<or> (\<exists>s. e = BaseError s)"
proof (induction d path data perm now rule: dir_WriteFile.induct)
  case (1 d path data perm now)
  show ?case
  proof (cases "perm AND ModeDir \<noteq> 0")
    case True
    with "1.prems" show ?thesis
      by (subst (asm) dir_WriteFile.simps) simp
  next
    case np: False
    show ?thesis
    proof (cases "length (Split path) = 1")
      case True
      with "1.prems" np show ?thesis
        by (subst (asm) dir_WriteFile.simps) (auto split: option.splits dest: overwrite_error)
    next
      case False
      show ?thesis
      proof (cases "map_of (dirs d) (hd (Split path))")
        case None
        with "1.prems" np False show ?thesis
          by (subst (asm) dir_WriteFile.simps) simp
      next
        case (Some sub)
        with "1.prems" np False
        have "fst (dir_WriteFile sub (Join (tl (Split path))) data perm now) = Some e"
          by (subst (asm) dir_WriteFile.simps) simp
        then show ?thesis by (rule "1.IH" [OF np False Some])
      qed
    qed
  qed
qed

lemma removePath_error:
  "removePath d nm recursive = Some (Some e, d') \<Longrightarrow>
   e = Err ErrNotExist \<or> (\<not> recursive \<and> e = Err ErrInvalid)"
proof (induction nm arbitrary: d d' rule: length_induct)
  case (1 nm)
  show ?case
  proof (cases "length (Split nm) = 1")
    case True
    with "1.prems" show ?thesis
      by (subst (asm) removePath.simps)
         (auto split: if_splits sum.splits simp: bind_eq_Some_conv)
  next
    case False
    then have "nm \<noteq> []" by auto
    then have lt: "length (Join (tl (Split nm))) < length nm"
      by (rule length_Join_tl_Split)
    from "1.prems" False show ?thesis
      by (subst (asm) removePath.simps)
         (auto split: if_splits sum.splits simp: bind_eq_Some_conv
               dest: getDir_error "1.IH" [rule_format, OF lt])
  qed
qed



lemma dir_MkdirAll_again:
  "dir_MkdirAll d path perm now = (None, d1) \<Longrightarrow> dir_MkdirAll d1 path perm now = (None, d1)"
proof (induction d path perm now arbitrary: d1 rule: dir_MkdirAll.induct)
  case (1 d path perm now)
  show ?case
  proof (cases "path = []")
    case True
    with "1.prems" show ?thesis
      by (subst dir_MkdirAll.simps, subst (asm) dir_MkdirAll.simps) simp
  next
    case ne: False
    let ?p0 = "hd (Split path)"
    let ?perm1 = "if perm AND ModeDir = 0 then perm OR ModeDir else perm"
    let ?ds = "if map_of (dirs d) ?p0 = None
               then AList.update ?p0
                      (Directory \<lparr>name = ?p0, size' = 0x100, modified = now, mode = ?perm1\<rparr> [] [])
                      (dirs d)
               else dirs d"
    let ?d1 = "Directory ((dinfo d)\<lparr>modified := now\<rparr>) ?ds (files d)"
    from "1.prems" ne have nofile: "\<not> map_of (files d) ?p0 \<noteq> None"
      by (subst (asm) dir_MkdirAll.simps) (auto split: if_splits)
    have present: "map_of ?ds ?p0 \<noteq> None"
      by (auto simp: AList.update_conv')
    show ?thesis
    proof (cases "length (Split path) = 1")
      case True
      with "1.prems" ne nofile have d1: "d1 = ?d1"
        by (subst (asm) dir_MkdirAll.simps) (simp add: Let_def)
      show ?thesis
        using ne nofile True present
        by (subst dir_MkdirAll.simps) (simp add: d1 Let_def)
    next
      case False
      let ?sub = "the (map_of ?ds ?p0)"
      let ?rec = "dir_MkdirAll ?sub (Join (tl (Split path))) ?perm1 now"
      from "1.prems" ne nofile False have r: "fst ?rec = None"
        and d1: "d1 = Directory (dinfo ?d1) (AList.update ?p0 (snd ?rec) ?ds) (files ?d1)"
        by (subst (asm) dir_MkdirAll.simps, simp add: Let_def)+
      have rec: "?rec = (None, snd ?rec)" using r by (simp add: prod_eq_iff)
      have again: "dir_MkdirAll (snd ?rec) (Join (tl (Split path))) ?perm1 now = (None, snd ?rec)"
        by (rule "1.IH" [OF ne nofile refl refl refl False rec])
      have look: "map_of (dirs d1) ?p0 = Some (snd ?rec)"
        by (simp add: d1 AList.update_conv')
      show ?thesis
        using ne nofile False look again
        by (subst dir_MkdirAll.simps)
           (simp add: Let_def d1 AList.update_conv' AList.update_triv)
    qed
  qed
qed

lemma untimed_update_same:
  "map_of al k = Some v0 \<Longrightarrow> untimed v = untimed v0 \<Longrightarrow>
   map (\<lambda>e. (fst e, untimed (snd e))) (AList.update k v al)
   = map (\<lambda>e. (fst e, untimed (snd e))) al"
  by (induction al) (auto split: if_splits)

lemma dir_MkdirAll_again_untimed:
  "dir_MkdirAll d path perm now = (None, d1) \<Longrightarrow>
   fst (dir_MkdirAll d1 path perm now') = None
   \<and> untimed (snd (dir_MkdirAll d1 path perm now')) = untimed d1"
proof (induction d path perm now arbitrary: d1 rule: dir_MkdirAll.induct)
  case (1 d path perm now)
  show ?case
  proof (cases "path = []")
    case True
    with "1.prems" show ?thesis
      by (subst (1 2) dir_MkdirAll.simps, subst (asm) dir_MkdirAll.simps) simp
  next
    case ne: False
    let ?p0 = "hd (Split path)"
    let ?perm1 = "if perm AND ModeDir = 0 then perm OR ModeDir else perm"
    let ?ds = "if map_of (dirs d) ?p0 = None
               then AList.update ?p0
                      (Directory \<lparr>name = ?p0, size' = 0x100, modified = now, mode = ?perm1\<rparr> [] [])
                      (dirs d)
               else dirs d"
    let ?d1 = "Directory ((dinfo d)\<lparr>modified := now\<rparr>) ?ds (files d)"
    from "1.prems" ne have nofile: "\<not> map_of (files d) ?p0 \<noteq> None"
      by (subst (asm) dir_MkdirAll.simps) (auto split: if_splits)
    have present: "map_of ?ds ?p0 \<noteq> None"
      by (auto simp: AList.update_conv')
    show ?thesis
    proof (cases "length (Split path) = 1")
      case True
      with "1.prems" ne nofile have d1: "d1 = ?d1"
        by (subst (asm) dir_MkdirAll.simps) (simp add: Let_def)
      from present obtain y where "map_of ?ds ?p0 = Some y" by blast
      then have y: "map_of (dirs d1) ?p0 = Some y" by (simp add: d1)
      have nf: "map_of (files d1) ?p0 = None" using nofile by (simp add: d1)
      show ?thesis
        using ne True y nf
        by (subst (1 2) dir_MkdirAll.simps) (cases d1, simp add: Let_def)
    next
      case False
      let ?sub = "the (map_of ?ds ?p0)"
      let ?rec = "dir_MkdirAll ?sub (Join (tl (Split path))) ?perm1 now"
      from "1.prems" ne nofile False have r: "fst ?rec = None"
        and d1: "d1 = Directory (dinfo ?d1) (AList.update ?p0 (snd ?rec) ?ds) (files ?d1)"
        by (subst (asm) dir_MkdirAll.simps, simp add: Let_def)+
      have rec: "?rec = (None, snd ?rec)" using r by (simp add: prod_eq_iff)
      let ?rec2 = "dir_MkdirAll (snd ?rec) (Join (tl (Split path))) ?perm1 now'"
      have again: "fst ?rec2 = None \<and> untimed (snd ?rec2) = untimed (snd ?rec)"
        by (rule "1.IH" [OF ne nofile refl refl refl False rec])
      have look: "map_of (dirs d1) ?p0 = Some (snd ?rec)"
        by (simp add: d1 AList.update_conv')
      have "map (\<lambda>e. (fst e, untimed (snd e))) (AList.update ?p0 (snd ?rec2) (dirs d1))
            = map (\<lambda>e. (fst e, untimed (snd e))) (dirs d1)"
        using look again by (intro untimed_update_same) simp_all
      moreover have "files d1 = files d" "map_of (files d1) ?p0 = None"
        using nofile by (simp_all add: d1)
      ultimately show ?thesis
        using ne False look again
        by (subst (1 2) dir_MkdirAll.simps) (cases d1, simp add: Let_def)
    qed
  qed
qed

text \<open>The operations keep the directories below the root well named.\<close>

lemma set_update_subset: "e \<in> set (AList.update k v al) \<Longrightarrow> e = (k, v) \<or> e \<in> set al"
  by (induction al) (auto split: if_splits)

lemma names_ok_update_dir:
  "names_ok d \<Longrightarrow> names_ok f \<Longrightarrow> ok_name (name (dinfo f)) \<Longrightarrow>
   names_ok (Directory i (AList.update k f (dirs d)) (files d))"
  by (cases d) (auto simp: list_all_iff dest!: set_update_subset)

lemma names_ok_update_file:
  "names_ok d \<Longrightarrow> ok_name (name (info f)) \<Longrightarrow>
   names_ok (Directory i (dirs d) (AList.update k f (files d)))"
  by (cases d) (auto simp: list_all_iff dest!: set_update_subset)

lemma names_ok_child_name:
  "names_ok d \<Longrightarrow> map_of (dirs d) k = Some f \<Longrightarrow> ok_name (name (dinfo f))"
  by (cases d) (auto simp: list_all_iff dest!: map_of_SomeD)

lemma names_ok_file_child_name:
  "names_ok d \<Longrightarrow> map_of (files d) k = Some f \<Longrightarrow> ok_name (name (info f))"
  by (cases d) (auto simp: list_all_iff dest!: map_of_SomeD)

lemma names_ok_info: "names_ok d \<Longrightarrow> names_ok (Directory i (dirs d) (files d))"
  by (cases d) simp

lemma clean_name_cleanse: "clean_name (cleanse p)"
  using cleanse_segments [of p] by (auto simp: clean_name_def)

lemma clean_name_hd: "clean_name nm \<Longrightarrow> nm \<noteq> [] \<Longrightarrow> ok_name (hd (Split nm))"
  using Split_not_Nil [of nm] Split_no_separator [of "hd (Split nm)" nm]
  by (cases "Split nm") (auto simp: clean_name_def ok_name_def)

lemma clean_name_tl:
  "clean_name nm \<Longrightarrow> length (Split nm) \<noteq> 1 \<Longrightarrow> clean_name (Join (tl (Split nm)))"
proof -
  assume c: "clean_name nm" and m: "length (Split nm) \<noteq> 1"
  obtain p ps where sp: "Split nm = p # ps"
    using Split_not_Nil [of nm] by (cases "Split nm") auto
  with m obtain q qs where ps: "ps = q # qs" by (cases ps) auto
  have "nm \<noteq> []" using m by auto
  with c sp ps Split_tl [of nm p q qs] show ?thesis by (auto simp: clean_name_def)
qed

lemma clean_name_tl_ne:
  assumes "clean_name nm" "nm \<noteq> []" "length (Split nm) \<noteq> 1"
  shows "Join (tl (Split nm)) \<noteq> []"
proof
  assume e: "Join (tl (Split nm)) = []"
  obtain p ps where sp: "Split nm = p # ps"
    using Split_not_Nil [of nm] by (cases "Split nm") auto
  with assms(3) obtain q qs where ps: "ps = q # qs" by (cases ps) auto
  from Split_tl [of nm p q qs] sp ps e have "Split [] = q # qs" by simp
  then have "q = []" by simp
  with assms(1,2) sp ps show False by (auto simp: clean_name_def)
qed

lemma dir_MkdirAll_names:
  "clean_name path \<Longrightarrow> names_ok d \<Longrightarrow>
   names_ok (snd (dir_MkdirAll d path perm now))
   \<and> name (dinfo (snd (dir_MkdirAll d path perm now))) = name (dinfo d)"
proof (induction d path perm now rule: dir_MkdirAll.induct)
  case (1 d path perm now)
  show ?case
  proof (cases "path = []")
    case True
    with "1.prems" show ?thesis by (subst (1 2) dir_MkdirAll.simps) simp
  next
    case ne: False
    let ?p0 = "hd (Split path)"
    let ?perm1 = "if perm AND ModeDir = 0 then perm OR ModeDir else perm"
    let ?new = "Directory \<lparr>name = ?p0, size' = 0x100, modified = now, mode = ?perm1\<rparr> [] []"
    let ?ds = "if map_of (dirs d) ?p0 = None then AList.update ?p0 ?new (dirs d) else dirs d"
    let ?d1 = "Directory ((dinfo d)\<lparr>modified := now\<rparr>) ?ds (files d)"
    have okp: "ok_name ?p0" using clean_name_hd [OF "1.prems"(1) ne] .
    have d1: "names_ok ?d1"
      using names_ok_update_dir [OF "1.prems"(2), of ?new "(dinfo d)\<lparr>modified := now\<rparr>" ?p0]
        names_ok_info [OF "1.prems"(2), of "(dinfo d)\<lparr>modified := now\<rparr>"] okp
      by simp
    show ?thesis
    proof (cases "map_of (files d) ?p0 \<noteq> None")
      case True
      with ne "1.prems" show ?thesis by (subst (1 2) dir_MkdirAll.simps) simp
    next
      case nofile: False
      show ?thesis
      proof (cases "length (Split path) = 1")
        case True
        with ne nofile d1 show ?thesis
          by (subst (1 2) dir_MkdirAll.simps) (simp add: Let_def)
      next
        case False
        let ?sub = "the (map_of ?ds ?p0)"
        let ?rec = "dir_MkdirAll ?sub (Join (tl (Split path))) ?perm1 now"
        have sub: "map_of (dirs ?d1) ?p0 = Some ?sub"
          by (auto simp: AList.update_conv')
        have oksub: "names_ok ?sub" using names_ok_child [OF d1 sub] .
        have subname: "ok_name (name (dinfo ?sub))" using names_ok_child_name [OF d1 sub] .
        have "names_ok (snd ?rec) \<and> name (dinfo (snd ?rec)) = name (dinfo ?sub)"
          by (rule "1.IH" [OF ne nofile refl refl refl False
                clean_name_tl [OF "1.prems"(1) False] oksub])
        then have "names_ok (Directory (dinfo ?d1) (AList.update ?p0 (snd ?rec) (dirs ?d1))
                     (files ?d1))"
          using names_ok_update_dir [OF d1, of "snd ?rec" "dinfo ?d1" ?p0] subname by simp
        with ne nofile False show ?thesis
          by (subst (1 2) dir_MkdirAll.simps) (simp add: Let_def)
      qed
    qed
  qed
qed


lemma overwrite_name: "name (info (snd (overwrite f data perm now))) = name (info f)"
  by (simp add: overwrite_def Let_def split: option.splits lazyOpener.splits base_file.splits)

lemma dir_WriteFile_names:
  "clean_name path \<Longrightarrow> path \<noteq> [] \<Longrightarrow> names_ok d \<Longrightarrow>
   names_ok (snd (dir_WriteFile d path data perm now))
   \<and> dinfo (snd (dir_WriteFile d path data perm now)) = dinfo d"
proof (induction d path data perm now rule: dir_WriteFile.induct)
  case (1 d path data perm now)
  let ?p0 = "hd (Split path)"
  have okp: "ok_name ?p0" using clean_name_hd [OF "1.prems"(1,2)] .
  show ?case
  proof (cases "perm AND ModeDir \<noteq> 0")
    case True
    with "1.prems" show ?thesis by (subst (1 2) dir_WriteFile.simps) simp
  next
    case np: False
    show ?thesis
    proof (cases "length (Split path) = 1")
      case True
      show ?thesis
      proof (cases "map_of (files d) ?p0")
        case None
        let ?new = "\<lparr>info = \<lparr>name = ?p0, size' = int (length data), modified = now, mode = perm\<rparr>,
                     opener = Some LazyAccess, content = data\<rparr>"
        have "names_ok (Directory (dinfo d) (dirs d) (AList.update ?p0 ?new (files d)))"
          using names_ok_update_file [OF "1.prems"(3), of ?new "dinfo d" ?p0] okp by simp
        with np True None show ?thesis
          by (subst (1 2) dir_WriteFile.simps) simp
      next
        case (Some existing)
        let ?f' = "snd (overwrite existing data perm now)"
        have "ok_name (name (info ?f'))"
          using names_ok_file_child_name [OF "1.prems"(3) Some] by (simp add: overwrite_name)
        then have "names_ok (Directory (dinfo d) (dirs d) (AList.update ?p0 ?f' (files d)))"
          by (rule names_ok_update_file [OF "1.prems"(3)])
        with np True Some show ?thesis
          by (subst (1 2) dir_WriteFile.simps) simp
      qed
    next
      case False
      show ?thesis
      proof (cases "map_of (dirs d) ?p0")
        case None
        with np False "1.prems" show ?thesis by (subst (1 2) dir_WriteFile.simps) simp
      next
        case (Some sub)
        let ?rec = "dir_WriteFile sub (Join (tl (Split path))) data perm now"
        have "names_ok (snd ?rec) \<and> dinfo (snd ?rec) = dinfo sub"
          by (rule "1.IH" [OF np False Some clean_name_tl [OF "1.prems"(1) False]
                clean_name_tl_ne [OF "1.prems"(1,2) False]
                names_ok_child [OF "1.prems"(3) Some]])
        then have "names_ok (Directory (dinfo d) (AList.update ?p0 (snd ?rec) (dirs d)) (files d))"
          using names_ok_update_dir [OF "1.prems"(3), of "snd ?rec" "dinfo d" ?p0]
            names_ok_child_name [OF "1.prems"(3) Some] by simp
        with np False Some show ?thesis by (subst (1 2) dir_WriteFile.simps) simp
      qed
    qed
  qed
qed

lemma removePath_names:
  "removePath d nm recursive = Some (r, d') \<Longrightarrow> names_ok d \<Longrightarrow>
   names_ok d' \<and> dinfo d' = dinfo d"
proof (induction nm arbitrary: d d' r rule: length_induct)
  case (1 nm)
  note run = "1.prems"(1) and ok = "1.prems"(2)
  show ?case
  proof (cases "length (Split nm) = 1")
    case True
    from run True have
      "d' = Directory (dinfo d) (dirs d) (AList.delete nm (files d))
       \<or> d' = Directory (dinfo d) (AList.delete (hd (Split nm)) (dirs d)) (files d)
       \<or> d' = d"
      by (subst (asm) removePath.simps)
         (auto split: if_splits sum.splits simp: bind_eq_Some_conv)
    with ok names_ok_delete_dir [OF ok] names_ok_delete_file [OF ok] show ?thesis by auto
  next
    case False
    then have "nm \<noteq> []" by auto
    then have lt: "length (Join (tl (Split nm))) < length nm"
      by (rule length_Join_tl_Split)
    show ?thesis
    proof (cases "getDir d (hd (Split nm))")
      case (Inl e)
      with run False have "d' = d" by (subst (asm) removePath.simps) simp
      with ok show ?thesis by simp
    next
      case (Inr sub)
      with run False obtain r' sub' where
        rec: "removePath sub (Join (tl (Split nm))) recursive = Some (r', sub')"
        and d': "d' = (if hd (Split nm) = [] then sub'
                       else Directory (dinfo d) (AList.update (hd (Split nm)) sub' (dirs d))
                              (files d))"
        by (subst (asm) removePath.simps) (auto simp: bind_eq_Some_conv)
      show ?thesis
      proof (cases "hd (Split nm) = []")
        case True
        with Inr have "sub = d" by (simp add: getDir_Nil)
        with "1.IH" [rule_format, OF lt rec] ok d' True show ?thesis by simp
      next
        case hne: False
        have okh: "ok_name (hd (Split nm))"
          using hne Split_not_Nil [of nm] Split_no_separator [of "hd (Split nm)" nm]
          by (cases "Split nm") (auto simp: ok_name_def)
        from Inr have look: "map_of (dirs d) (hd (Split nm)) = Some sub"
          by (simp add: getDir_single [OF okh] split: option.splits)
        from "1.IH" [rule_format, OF lt rec names_ok_child [OF ok look]]
        have "names_ok sub'" "dinfo sub' = dinfo sub" by simp_all
        with names_ok_update_dir [OF ok, of sub' "dinfo d" "hd (Split nm)"]
          names_ok_child_name [OF ok look] d' hne
        show ?thesis by simp
      qed
    qed
  qed
qed

lemma names_ok_getDir: "getDir d nm = Inr sub \<Longrightarrow> names_ok d \<Longrightarrow> names_ok sub"
proof (induction d nm rule: getDir.induct)
  case (1 d nm)
  show ?case
  proof (cases "nm = []")
    case True
    with "1.prems" show ?thesis by (simp add: getDir_Nil)
  next
    case False
    with "1.prems"(1) obtain f where f: "map_of (dirs d) (hd (Split nm)) = Some f"
      and g: "getDir f (Join (tl (Split nm))) = Inr sub"
      by (subst (asm) getDir.simps) (auto split: option.splits)
    from "1.IH" [OF False f g names_ok_child [OF "1.prems"(2) f]] show ?thesis .
  qed
qed

lemma dirs_ok_names: "dirs_ok d \<longleftrightarrow> names_ok (Directory (dinfo d) (dirs d) [])"
  by (simp add: dirs_ok_def)

lemma dirs_ok_child: "dirs_ok d \<Longrightarrow> map_of (dirs d) k = Some f \<Longrightarrow> names_ok f \<and> ok_name (name (dinfo f))"
  by (auto simp: dirs_ok_def list_all_iff dest!: map_of_SomeD)

lemma dirs_ok_update:
  "dirs_ok d \<Longrightarrow> names_ok f \<Longrightarrow> ok_name (name (dinfo f)) \<Longrightarrow>
   dirs_ok (Directory i (AList.update k f (dirs d)) fs)"
  by (auto simp: dirs_ok_def list_all_iff dest!: set_update_subset)

lemma dirs_ok_delete: "dirs_ok d \<Longrightarrow> dirs_ok (Directory i (AList.delete k (dirs d)) fs)"
  by (auto simp: dirs_ok_def list_all_iff AList.delete_eq)

lemma dirs_ok_same: "dirs_ok d \<Longrightarrow> dirs_ok (Directory i (dirs d) fs)"
  by (simp add: dirs_ok_def)

lemma dir_MkdirAll_dirs_ok:
  assumes "clean_name path" "dirs_ok d"
  shows "dirs_ok (snd (dir_MkdirAll d path perm now))"
proof (cases "path = [] \<or> map_of (files d) (hd (Split path)) \<noteq> None")
  case True
  with assms show ?thesis by (subst dir_MkdirAll.simps) auto
next
  case False
  then have ne: "path \<noteq> []" and nofile: "\<not> map_of (files d) (hd (Split path)) \<noteq> None"
    by simp_all
  let ?p0 = "hd (Split path)"
  let ?perm1 = "if perm AND ModeDir = 0 then perm OR ModeDir else perm"
  let ?new = "Directory \<lparr>name = ?p0, size' = 0x100, modified = now, mode = ?perm1\<rparr> [] []"
  let ?ds = "if map_of (dirs d) ?p0 = None then AList.update ?p0 ?new (dirs d) else dirs d"
  let ?d1 = "Directory ((dinfo d)\<lparr>modified := now\<rparr>) ?ds (files d)"
  have okp: "ok_name ?p0" using clean_name_hd [OF assms(1) ne] .
  have d1: "dirs_ok ?d1"
    using dirs_ok_update [OF assms(2), of ?new "(dinfo d)\<lparr>modified := now\<rparr>" ?p0 "files d"]
      dirs_ok_same [OF assms(2), of "(dinfo d)\<lparr>modified := now\<rparr>" "files d"] okp
    by simp
  show ?thesis
  proof (cases "length (Split path) = 1")
    case True
    with ne nofile d1 show ?thesis by (subst dir_MkdirAll.simps) (simp add: Let_def)
  next
    case multi: False
    let ?sub = "the (map_of ?ds ?p0)"
    let ?rec = "dir_MkdirAll ?sub (Join (tl (Split path))) ?perm1 now"
    have sub: "map_of (dirs ?d1) ?p0 = Some ?sub"
      by (auto simp: AList.update_conv')
    from dirs_ok_child [OF d1 sub] have oksub: "names_ok ?sub" "ok_name (name (dinfo ?sub))"
      by simp_all
    from dir_MkdirAll_names [OF clean_name_tl [OF assms(1) multi] oksub(1), of ?perm1 now]
    have "names_ok (snd ?rec)" "ok_name (name (dinfo (snd ?rec)))"
      using oksub(2) by simp_all
    then have "dirs_ok (Directory (dinfo ?d1) (AList.update ?p0 (snd ?rec) (dirs ?d1)) (files ?d1))"
      by (rule dirs_ok_update [OF d1])
    with ne nofile multi show ?thesis by (subst dir_MkdirAll.simps) (simp add: Let_def)
  qed
qed


lemma dir_writeLazyFile_names:
  "clean_name path \<Longrightarrow> path \<noteq> [] \<Longrightarrow> names_ok d \<Longrightarrow>
   names_ok (snd (dir_writeLazyFile d path opn perm now))
   \<and> dinfo (snd (dir_writeLazyFile d path opn perm now)) = dinfo d"
proof (induction d path opn perm now rule: dir_writeLazyFile.induct)
  case (1 d path opn perm now)
  let ?p0 = "hd (Split path)"
  have okp: "ok_name ?p0" using clean_name_hd [OF "1.prems"(1,2)] .
  show ?case
  proof (cases "perm AND ModeDir \<noteq> 0")
    case True
    with "1.prems" show ?thesis by (subst (1 2) dir_writeLazyFile.simps) simp
  next
    case np: False
    show ?thesis
    proof (cases "length (Split path) = 1")
      case True
      let ?new = "\<lparr>info = \<lparr>name = ?p0, size' = 0, modified = now, mode = perm\<rparr>,
                   opener = Some opn, content = []\<rparr>"
      have "names_ok (Directory (dinfo d) (dirs d) (AList.update ?p0 ?new (files d)))"
        using names_ok_update_file [OF "1.prems"(3), of ?new "dinfo d" ?p0] okp by simp
      with np True show ?thesis
        by (subst (1 2) dir_writeLazyFile.simps) simp
    next
      case False
      show ?thesis
      proof (cases "map_of (dirs d) ?p0")
        case None
        with np False "1.prems" show ?thesis by (subst (1 2) dir_writeLazyFile.simps) simp
      next
        case (Some sub)
        let ?rec = "dir_writeLazyFile sub (Join (tl (Split path))) opn perm now"
        have "names_ok (snd ?rec) \<and> dinfo (snd ?rec) = dinfo sub"
          by (rule "1.IH" [OF np False Some clean_name_tl [OF "1.prems"(1) False]
                clean_name_tl_ne [OF "1.prems"(1,2) False]
                names_ok_child [OF "1.prems"(3) Some]])
        then have "names_ok (Directory (dinfo d) (AList.update ?p0 (snd ?rec) (dirs d)) (files d))"
          using names_ok_update_dir [OF "1.prems"(3), of "snd ?rec" "dinfo d" ?p0]
            names_ok_child_name [OF "1.prems"(3) Some] by simp
        with np False Some show ?thesis by (subst (1 2) dir_writeLazyFile.simps) simp
      qed
    qed
  qed
qed

lemma dir_WriteFile_dirs_ok:
  assumes "clean_name path" "dirs_ok d"
  shows "dirs_ok (snd (dir_WriteFile d path data perm now))"
proof (cases "perm AND ModeDir \<noteq> 0")
  case True
  with assms show ?thesis by (subst dir_WriteFile.simps) simp
next
  case np: False
  show ?thesis
  proof (cases "length (Split path) = 1")
    case True
    with np dirs_ok_same [OF assms(2)] show ?thesis
      by (subst dir_WriteFile.simps) (simp split: option.splits)
  next
    case multi: False
    then have ne: "path \<noteq> []" by auto
    show ?thesis
    proof (cases "map_of (dirs d) (hd (Split path))")
      case None
      with np multi assms show ?thesis by (subst dir_WriteFile.simps) simp
    next
      case (Some sub)
      let ?rec = "dir_WriteFile sub (Join (tl (Split path))) data perm now"
      from dirs_ok_child [OF assms(2) Some] have oksub: "names_ok sub" "ok_name (name (dinfo sub))"
        by simp_all
      from dir_WriteFile_names [OF clean_name_tl [OF assms(1) multi]
          clean_name_tl_ne [OF assms(1) ne multi] oksub(1), of data perm now]
      have "names_ok (snd ?rec)" "ok_name (name (dinfo (snd ?rec)))"
        using oksub(2) by simp_all
      then have "dirs_ok (Directory (dinfo d) (AList.update (hd (Split path)) (snd ?rec) (dirs d))
                   (files d))"
        by (rule dirs_ok_update [OF assms(2)])
      with np multi Some show ?thesis by (subst dir_WriteFile.simps) simp
    qed
  qed
qed

lemma dir_writeLazyFile_dirs_ok:
  assumes "clean_name path" "dirs_ok d"
  shows "dirs_ok (snd (dir_writeLazyFile d path opn perm now))"
proof (cases "perm AND ModeDir \<noteq> 0")
  case True
  with assms show ?thesis by (subst dir_writeLazyFile.simps) simp
next
  case np: False
  show ?thesis
  proof (cases "length (Split path) = 1")
    case True
    with np dirs_ok_same [OF assms(2)] show ?thesis
      by (subst dir_writeLazyFile.simps) simp
  next
    case multi: False
    then have ne: "path \<noteq> []" by auto
    show ?thesis
    proof (cases "map_of (dirs d) (hd (Split path))")
      case None
      with np multi assms show ?thesis by (subst dir_writeLazyFile.simps) simp
    next
      case (Some sub)
      let ?rec = "dir_writeLazyFile sub (Join (tl (Split path))) opn perm now"
      from dirs_ok_child [OF assms(2) Some] have oksub: "names_ok sub" "ok_name (name (dinfo sub))"
        by simp_all
      from dir_writeLazyFile_names [OF clean_name_tl [OF assms(1) multi]
          clean_name_tl_ne [OF assms(1) ne multi] oksub(1), of opn perm now]
      have "names_ok (snd ?rec)" "ok_name (name (dinfo (snd ?rec)))"
        using oksub(2) by simp_all
      then have "dirs_ok (Directory (dinfo d) (AList.update (hd (Split path)) (snd ?rec) (dirs d))
                   (files d))"
        by (rule dirs_ok_update [OF assms(2)])
      with np multi Some show ?thesis by (subst dir_writeLazyFile.simps) simp
    qed
  qed
qed

lemma removePath_dirs_ok:
  assumes "removePath d nm recursive = Some (r, d')" "clean_name nm" "nm \<noteq> []" "dirs_ok d"
  shows "dirs_ok d'"
proof (cases "length (Split nm) = 1")
  case True
  from assms(1) True have
    "d' = Directory (dinfo d) (dirs d) (AList.delete nm (files d))
     \<or> d' = Directory (dinfo d) (AList.delete (hd (Split nm)) (dirs d)) (files d)
     \<or> d' = d"
    by (subst (asm) removePath.simps)
       (auto split: if_splits sum.splits simp: bind_eq_Some_conv)
  with assms(4) dirs_ok_delete [OF assms(4)] dirs_ok_same [OF assms(4)] show ?thesis by auto
next
  case multi: False
  have okh: "ok_name (hd (Split nm))" using clean_name_hd [OF assms(2,3)] .
  show ?thesis
  proof (cases "map_of (dirs d) (hd (Split nm))")
    case None
    then have "getDir d (hd (Split nm)) = Inl (Err ErrNotExist)"
      by (simp add: getDir_single [OF okh])
    with assms(1) multi have "d' = d" by (subst (asm) removePath.simps) simp
    with assms(4) show ?thesis by simp
  next
    case (Some sub)
    then have "getDir d (hd (Split nm)) = Inr sub"
      by (simp add: getDir_single [OF okh])
    with assms(1) multi okh obtain r' sub' where
      rec: "removePath sub (Join (tl (Split nm))) recursive = Some (r', sub')"
      and d': "d' = Directory (dinfo d) (AList.update (hd (Split nm)) sub' (dirs d)) (files d)"
      by (subst (asm) removePath.simps) (auto simp: bind_eq_Some_conv ok_name_def)
    from dirs_ok_child [OF assms(4) Some] have oksub: "names_ok sub" "ok_name (name (dinfo sub))"
      by simp_all
    from removePath_names [OF rec oksub(1)] oksub(2)
    have "names_ok sub'" "ok_name (name (dinfo sub'))" by simp_all
    then show ?thesis unfolding d' by (rule dirs_ok_update [OF assms(4)])
  qed
qed

lemma reachable_dirs_ok: "reachable m \<Longrightarrow> dirs_ok (dir m)"
proof (induction rule: reachable.induct)
  case (reach_new now)
  show ?case by (simp add: newMemFS_def dirs_ok_def)
next
  case (reach_MkdirAll m p perm now)
  then show ?case
    by (simp add: MkdirAll_def dir_MkdirAll_dirs_ok clean_name_cleanse)
next
  case (reach_WriteFile m p data perm now)
  then show ?case
    by (simp add: WriteFile_def dir_WriteFile_dirs_ok clean_name_cleanse)
next
  case (reach_writeLazyFile m p opn perm now)
  then show ?case
    by (simp add: writeLazyFile_def dir_writeLazyFile_dirs_ok clean_name_cleanse)
next
  case (reach_OpenFile m p flag perm now)
  have "dir (snd (OpenFile m p flag perm now)) = dir m
        \<or> dir (snd (OpenFile m p flag perm now))
           = snd (dir_WriteFile (dir m) (cleanse p) [] perm now)"
    by (auto simp: OpenFile_def split: sum.splits prod.splits option.splits)
  with reach_OpenFile.IH show ?case
    by (auto simp: dir_WriteFile_dirs_ok clean_name_cleanse)
next
  case (reach_Remove m p r m')
  show ?case
  proof (cases "cleanse p = []")
    case True
    with reach_Remove show ?thesis by (auto simp: Remove_def dir_Remove_def)
  next
    case False
    with reach_Remove.hyps(2) cleanse_not_dot [of p] obtain d' where
      "removePath (dir m) (cleanse p) False = Some (r, d')" "m' = m\<lparr>dir := d'\<rparr>"
      by (auto simp: Remove_def dir_Remove_def bind_eq_Some_conv)
    with removePath_dirs_ok [OF _ clean_name_cleanse False reach_Remove.IH] show ?thesis
      by simp
  qed
next
  case (reach_RemoveAll m p r m')
  show ?case
  proof (cases "cleanse p = []")
    case True
    with reach_RemoveAll show ?thesis by (auto simp: RemoveAll_def dir_RemoveAll_def)
  next
    case False
    with reach_RemoveAll.hyps(2) cleanse_not_dot [of p] obtain d' where
      "removePath (dir m) (cleanse p) True = Some (r, d')" "m' = m\<lparr>dir := d'\<rparr>"
      by (auto simp: RemoveAll_def dir_RemoveAll_def bind_eq_Some_conv)
    with removePath_dirs_ok [OF _ clean_name_cleanse False reach_RemoveAll.IH] show ?thesis
      by simp
  qed
qed

lemma reachable_names_ok:
  assumes "reachable m" "nm \<noteq> []" "getDir (dir m) nm = Inr sub"
  shows "names_ok sub"
proof -
  from assms(2,3) obtain f where f: "map_of (dirs (dir m)) (hd (Split nm)) = Some f"
    and g: "getDir f (Join (tl (Split nm))) = Inr sub"
    by (subst (asm) getDir.simps) (auto split: option.splits)
  from dirs_ok_child [OF reachable_dirs_ok [OF assms(1)] f] have "names_ok f" by simp
  with g show ?thesis by (rule names_ok_getDir)
qed

text \<open>Failures that the operations report.\<close>

lemma Split_append_Split: "Split (a @ separator # b) = Split a @ Split b"
  by (induction a) (auto simp: Split_not_Nil)

lemma Join_append:
  "xs \<noteq> [] \<Longrightarrow> ys \<noteq> [] \<Longrightarrow> Join (xs @ ys) = Join xs @ separator # Join ys"
  by (induction xs rule: Join.induct) (auto simp: neq_Nil_conv)

lemma removePath_missing:
  assumes "clean_name nm" "nm \<noteq> []" "getFile d nm = Inl e1" "getDir d nm = Inl e2"
  shows "removePath d nm r = Some (Some (Err ErrNotExist), d)"
  using assms
proof (induction d nm arbitrary: e1 e2 rule: getDir.induct)
  case (1 d nm)
  have ne: "nm \<noteq> []" by fact
  obtain p ps where sp: "Split nm = p # ps"
    using Split_not_Nil [of nm] by (cases "Split nm") auto
  have okp: "ok_name p"
    using clean_name_hd [OF "1.prems"(1) ne] sp by simp
  show ?case
  proof (cases ps)
    case Nil
    with sp have nm: "nm = p" by (simp add: Split_single)
    from "1.prems"(3) okp nm have nofile: "map_of (files d) nm = None"
      by (simp add: getFile_single ok_name_def split: option.splits)
    show ?thesis
      using nofile "1.prems"(4) sp Nil nm by (subst removePath.simps) simp
  next
    case (Cons q qs)
    have multi: "length (Split nm) \<noteq> 1" using sp Cons by simp
    show ?thesis
    proof (cases "map_of (dirs d) p")
      case None
      then have "getDir d p = Inl (Err ErrNotExist)"
        by (simp add: getDir_single [OF okp])
      then show ?thesis
        using multi sp by (subst removePath.simps) simp
    next
      case (Some f)
      let ?rest = "Join (tl (Split nm))"
      have hdf: "map_of (dirs d) (hd (Split nm)) = Some f"
        using Some sp by simp
      have gdp: "getDir d p = Inr f"
        using Some by (simp add: getDir_single [OF okp])
      have gf: "getFile f ?rest = Inl e1"
        using "1.prems"(3) multi sp gdp by (subst (asm) getFile.simps) simp
      have gd: "getDir f ?rest = Inl e2"
        using "1.prems"(4) ne sp Some by (subst (asm) getDir.simps) simp
      have cl: "clean_name ?rest"
        by (rule clean_name_tl [OF "1.prems"(1) multi])
      have ne': "?rest \<noteq> []"
        by (rule clean_name_tl_ne [OF "1.prems"(1) ne multi])
      have rec: "removePath f ?rest r = Some (Some (Err ErrNotExist), f)"
        by (rule "1.IH" [OF ne hdf cl ne' gf gd])
      have pne: "p \<noteq> []" using okp by (simp add: ok_name_def)
      show ?thesis
        using multi sp gdp rec Some pne
        by (subst removePath.simps) (simp add: AList.update_triv)
    qed
  qed
qed

lemma removePath_plain_populated:
  assumes "[] \<notin> set (Split nm)" "getDir d nm = Inr sub" "dirs sub \<noteq> [] \<or> files sub \<noteq> []"
    "getFile d nm = Inl e"
  shows "removePath d nm False = Some (Some (Err ErrInvalid), d)"
  using assms
proof (induction d nm arbitrary: e rule: getDir.induct)
  case (1 d nm)
  have ne: "nm \<noteq> []" using "1.prems"(1) by auto
  obtain p ps where sp: "Split nm = p # ps"
    using Split_not_Nil [of nm] by (cases "Split nm") auto
  have okp: "ok_name p"
    using "1.prems"(1) Split_no_separator [of p nm] sp by (auto simp: ok_name_def)
  from "1.prems"(2) ne sp obtain f where f: "map_of (dirs d) p = Some f"
    and gf: "getDir f (Join ps) = Inr sub"
    by (subst (asm) getDir.simps) (auto split: option.splits)
  show ?case
  proof (cases ps)
    case Nil
    with sp have nm: "nm = p" by (simp add: Split_single)
    from gf Nil have sub: "sub = f" by (simp add: getDir_Nil)
    from "1.prems"(4) okp nm have nofile: "map_of (files d) nm = None"
      by (simp add: getFile_single ok_name_def split: option.splits)
    show ?thesis
      using removePath_single_dir_plain [of nm d f] okp nm nofile f "1.prems"(3) sub by simp
  next
    case (Cons q qs)
    let ?rest = "Join (tl (Split nm))"
    have hdf: "map_of (dirs d) (hd (Split nm)) = Some f" using f sp by simp
    have rest: "?rest = Join ps" using sp by simp
    have sr: "Split ?rest = ps" using Split_tl [of nm p q qs] sp Cons by simp
    have multi: "length (Split nm) \<noteq> 1" using sp Cons by simp
    have gdp: "getDir d p = Inr f" using f by (simp add: getDir_single [OF okp])
    from "1.prems"(4) multi sp gdp have gfile: "getFile f ?rest = Inl e"
      by (subst (asm) getFile.simps) simp
    have seg: "[] \<notin> set (Split ?rest)" using "1.prems"(1) sp sr by auto
    have gf': "getDir f ?rest = Inr sub" using gf rest by simp
    have plain: "removePath f ?rest False = Some (Some (Err ErrInvalid), f)"
      by (rule "1.IH" [OF ne hdf seg gf' "1.prems"(3) gfile])
    have pne: "p \<noteq> []" using okp by (simp add: ok_name_def)
    show ?thesis
      using multi sp gdp plain pne f
      by (subst removePath.simps) (simp add: AList.update_triv)
  qed
qed

lemma dir_WriteFile_no_parent:
  assumes "perm AND ModeDir = 0" "separator \<notin> set nm" "getDir d q = Inl e"
  shows "dir_WriteFile d (q @ separator # nm) data perm now = (Some (Err ErrNotExist), d)"
  using assms(3)
proof (induction d q arbitrary: e rule: getDir.induct)
  case (1 d q)
  have ne: "q \<noteq> []" using "1.prems" by (auto simp: getDir_Nil)
  obtain p ps where sp: "Split q = p # ps"
    using Split_not_Nil [of q] by (cases "Split q") auto
  let ?path = "q @ separator # nm"
  have spp: "Split ?path = p # ps @ [nm]"
    using sp assms(2) by (simp add: Split_append_Split Split_no_sep)
  have multi: "length (Split ?path) \<noteq> 1" using spp by simp
  show ?case
  proof (cases "map_of (dirs d) p")
    case None
    then show ?thesis
      using assms(1) multi spp by (subst dir_WriteFile.simps) simp
  next
    case (Some f)
    let ?rest = "Join (tl (Split q))"
    have hdf: "map_of (dirs d) (hd (Split q)) = Some f" using Some sp by simp
    from "1.prems" ne sp Some have gd: "getDir f ?rest = Inl e"
      by (subst (asm) getDir.simps) simp
    then have psne: "ps \<noteq> []" using sp by (auto simp: getDir_Nil)
    have rest: "Join (tl (Split ?path)) = ?rest @ separator # nm"
      using spp sp psne by (simp add: Join_snoc)
    have rec: "dir_WriteFile f (?rest @ separator # nm) data perm now = (Some (Err ErrNotExist), f)"
      by (rule "1.IH" [OF ne hdf gd])
    show ?thesis
      using assms(1) multi spp Some rec rest
      by (subst dir_WriteFile.simps) (simp add: AList.update_triv)
  qed
qed

lemma dir_MkdirAll_blocked:
  assumes "getFile d q = Inr f" "clean_name q" "q \<noteq> []"
    "path = q \<or> (\<exists>rest. path = q @ separator # rest)"
  shows "fst (dir_MkdirAll d path perm now) = Some (Err ErrExist)"
  using assms
proof (induction d q arbitrary: path perm rule: getFile.induct)
  case (1 d q)
  obtain p ps where sp: "Split q = p # ps"
    using Split_not_Nil [of q] by (cases "Split q") auto
  have okp: "ok_name p"
    using clean_name_hd [OF "1.prems"(2,3)] sp by simp
  have hdp: "hd (Split path) = p"
    using "1.prems"(4) sp by (auto simp: Split_append_Split)
  have pne: "path \<noteq> []"
    using "1.prems"(3,4) by auto
  show ?case
  proof (cases ps)
    case Nil
    with sp have q: "q = p" by (simp add: Split_single)
    from "1.prems"(1) sp Nil q have "map_of (files d) p = Some f"
      by (subst (asm) getFile.simps) (simp split: option.splits)
    then show ?thesis
      using hdp pne by (subst dir_MkdirAll.simps) simp
  next
    case (Cons s ss)
    let ?rest = "Join (tl (Split q))"
    have multi: "length (Split q) \<noteq> 1" using sp Cons by simp
    from "1.prems"(1) multi obtain sub where gdp: "getDir d (hd (Split q)) = Inr sub"
      and gf: "getFile sub ?rest = Inr f"
      by (subst (asm) getFile.simps) (auto split: sum.splits)
    from gdp sp have sub: "map_of (dirs d) p = Some sub"
      by (simp add: getDir_single [OF okp] split: option.splits)
    have cl: "clean_name ?rest"
      by (rule clean_name_tl [OF "1.prems"(2) multi])
    have ne': "?rest \<noteq> []"
      by (rule clean_name_tl_ne [OF "1.prems"(2,3) multi])
    have pm: "length (Split path) \<noteq> 1"
      using "1.prems"(4) sp Cons by (auto simp: Split_append_Split)
    have tlp: "Join (tl (Split path)) = ?rest
               \<or> (\<exists>r. Join (tl (Split path)) = ?rest @ separator # r)"
    proof (cases "path = q")
      case True
      then show ?thesis by simp
    next
      case False
      with "1.prems"(4) obtain r where r: "path = q @ separator # r" by blast
      have "Join (tl (Split path)) = Join (ps @ Split r)"
        using r sp by (simp add: Split_append_Split)
      also have "\<dots> = Join ps @ separator # Join (Split r)"
        using Join_append [of ps "Split r"] Cons Split_not_Nil [of r] by simp
      finally show ?thesis using sp by (simp add: Join_Split)
    qed
    have rec: "fst (dir_MkdirAll sub (Join (tl (Split path))) perm' now) = Some (Err ErrExist)"
      for perm'
      by (rule "1.IH" [OF multi gdp gf cl ne' tlp])
    show ?thesis
    proof (cases "map_of (files d) p = None")
      case False
      then show ?thesis
        using hdp pne by (subst dir_MkdirAll.simps) simp
    next
      case True
      then show ?thesis
        using hdp pne pm sub rec
        by (subst dir_MkdirAll.simps) (simp add: Let_def)
    qed
  qed
qed

lemma dir_WriteFile_existing:
  assumes "perm AND ModeDir = 0" "clean_name q" "getFile d q = Inr f"
  shows "fst (dir_WriteFile d q data perm now) = fst (overwrite f data perm now)"
  using assms(2,3)
proof (induction d q rule: getFile.induct)
  case (1 d q)
  show ?case
  proof (cases "length (Split q) = 1")
    case True
    then have hd: "hd (Split q) = q"
      using Split_single [of q "hd (Split q)"] by (cases "Split q") auto
    from "1.prems"(2) True have "map_of (files d) q = Some f"
      by (subst (asm) getFile.simps) (simp split: option.splits)
    then show ?thesis
      using assms(1) True hd by (subst dir_WriteFile.simps) simp
  next
    case False
    let ?rest = "Join (tl (Split q))"
    have ne: "q \<noteq> []" using False by auto
    from "1.prems"(2) False obtain sub where gdp: "getDir d (hd (Split q)) = Inr sub"
      and gf: "getFile sub ?rest = Inr f"
      by (subst (asm) getFile.simps) (auto split: sum.splits)
    have okp: "ok_name (hd (Split q))"
      by (rule clean_name_hd [OF "1.prems"(1) ne])
    from gdp have sub: "map_of (dirs d) (hd (Split q)) = Some sub"
      by (simp add: getDir_single [OF okp] split: option.splits)
    have cl: "clean_name ?rest"
      by (rule clean_name_tl [OF "1.prems"(1) False])
    have rec: "fst (dir_WriteFile sub ?rest data perm now) = fst (overwrite f data perm now)"
      by (rule "1.IH" [OF False gdp cl gf])
    show ?thesis
      using assms(1) False sub rec by (subst dir_WriteFile.simps) simp
  qed
qed

lemma missing_not_root: "getDir d nm = Inl e \<Longrightarrow> nm \<noteq> []"
  by (auto simp: getDir_Nil)


section \<open>Facts about the lookup, the overlay and the Runner\<close>

lemma checkStat_hit:
  "checkStat host cwd (candidate elem fl)
   = (if hit host cwd fl elem then Inr (resolve cwd (candidate elem fl))
      else Inl (case host (resolve cwd (candidate elem fl)) of
                  Inl err \<Rightarrow> err
                | Inr m \<Rightarrow> if IsDir m then IsADirectory else PermissionDenied))"
  by (auto simp: checkStat_def hit_def resolve_def Let_def split: sum.splits)

lemma lookPathDir_loop_find:
  "lookPathDir_loop host cwd fl l
   = (case List.find (hit host cwd fl) l of
        None \<Rightarrow> Inl (ExecutableNotFound fl)
      | Some elem \<Rightarrow> Inr (resolve cwd (candidate elem fl)))"
  by (induction l) (auto simp: checkStat_hit)


lemma Reset_fields:
  "Env (fst (Reset r st)) = Env r"
  "Dir (fst (Reset r st)) = (if didReset r then origDir r else Dir r)"
  "writeEnv (fst (Reset r st)) = Some (snd (overlay_over_base st (Env r)))"
  "didReset (fst (Reset r st))"
  by (simp_all add: Reset_def Let_def)

lemma Reset_store:
  "snd (Reset r st)
   = setVarString (snd (overlay_over_base st (Env r))) ''OPTIND'' ''1''
       (setVarString (snd (overlay_over_base st (Env r))) ''IFS'' default_IFS
          (setVarString (snd (overlay_over_base st (Env r))) ''PWD''
             (if didReset r then origDir r else Dir r)
             (seed_unless_set (snd (overlay_over_base st (Env r))) ''GID'' (readonly_Variable ''0'')
                (seed_unless_set (snd (overlay_over_base st (Env r))) ''EUID''
                   (readonly_Variable ''0'')
                   (seed_unless_set (snd (overlay_over_base st (Env r))) ''UID''
                      (readonly_Variable ''0'')
                      (seed_unless_set (snd (overlay_over_base st (Env r))) ''HOME''
                         (string_Variable ''/'')
                         (fst (overlay_over_base st (Env r)))))))))"
  by (simp add: Reset_def Let_def)

definition layer_ok :: "env_store \<Rightarrow> overlayEnviron \<Rightarrow> bool" where
  "layer_ok st h = (local_layer h < length st \<and> local_layer h \<notin> set (parents h))"

lemma setVar_ok [simp]: "layer_ok (setVar h nm vr st) h = layer_ok st h"
  by (simp add: layer_ok_def setVar_def overlay_Set_def)

lemma setVarString_ok [simp]: "layer_ok (setVarString h nm s st) h = layer_ok st h"
  by (simp add: setVarString_def)

lemma seed_ok [simp]: "layer_ok (seed_unless_set h nm vr st) h = layer_ok st h"
  by (simp add: seed_unless_set_def)

lemma fresh_ok [simp]: "layer_ok (fst (overlay_over_base st env)) (snd (overlay_over_base st env))"
  by (simp add: layer_ok_def overlay_over_base_def)

lemma chain_Get_update:
  "a \<notin> set as \<Longrightarrow> chain_Get (st[a := l]) as b nm = chain_Get st as b nm"
  by (induction as) (auto split: option.splits)

lemma Get_setVar:
  "layer_ok st h \<Longrightarrow>
   overlay_Get (setVar h nm' vr st) h nm = (if nm = nm' then vr else overlay_Get st h nm)"
  by (auto simp: layer_ok_def setVar_def overlay_Set_def overlay_Get_def chain_Get_update
           split: option.splits)

lemma Get_setVarString:
  "layer_ok st h \<Longrightarrow>
   overlay_Get (setVarString h nm' s st) h nm
   = (if nm = nm' then string_Variable s else overlay_Get st h nm)"
  by (simp add: setVarString_def Get_setVar)

lemma Get_seed:
  "layer_ok st h \<Longrightarrow>
   overlay_Get (seed_unless_set h nm' vr st) h nm
   = (if nm = nm' \<and> \<not> IsSet (overlay_Get st h nm) then vr else overlay_Get st h nm)"
  by (auto simp: seed_unless_set_def Get_setVar)

lemma Get_fresh:
  "overlay_Get (fst (overlay_over_base st env)) (snd (overlay_over_base st env)) nm
   = Environ_Get env nm"
  by (simp add: overlay_Get_def overlay_over_base_def)

lemma Reset_env_unfold:
  "Reset_env r st nm = overlay_Get (snd (Reset r st)) (snd (overlay_over_base st (Env r))) nm"
  by (simp add: Reset_env_def Reset_fields)


lemma reconcile_Some:
  "reconcile w = Some (res, w') \<Longrightarrow>
   res = (if fatalErr (fst w') \<noteq> None then fatalErr (fst w')
          else if nonFatalHandlerErr (fst w') \<noteq> None then nonFatalHandlerErr (fst w')
          else if exit (fst w') \<noteq> 0 then Some (ExitStatus (word_of_int (exit (fst w'))))
          else None)
   \<and> (\<exists>h. writeEnv (fst w') = Some h \<and> overlay_Each (snd w') h \<subseteq>\<^sub>m Vars (fst w'))"
  by (auto simp: reconcile_def Let_def map_le_def split: option.splits)


lemma Reset_Vars: "Vars (fst (Reset r st)) = Map.empty"
  by (simp add: Reset_def Let_def)

lemma Reset_errs:
  "fatalErr (fst (Reset r st)) = None" "nonFatalHandlerErr (fst (Reset r st)) = None"
  "exit (fst (Reset r st)) = 0"
  by (simp_all add: Reset_def Let_def zero_Runner_def)


lemma chain_Get_append:
  "\<forall>a\<in>set as. a < length st \<Longrightarrow> chain_Get (st @ ex) as b nm = chain_Get st as b nm"
  by (induction as) (auto simp: nth_append split: option.splits)

lemma setVar_length [simp]: "length (setVar h nm vr st) = length st"
  by (simp add: setVar_def overlay_Set_def)

lemma chain_Get_setVar_other:
  "local_layer h \<notin> set as \<Longrightarrow> chain_Get (setVar h n vr st) as b nm = chain_Get st as b nm"
  by (simp add: setVar_def overlay_Set_def chain_Get_update)

lemma chain_Get_writes:
  "local_layer h \<notin> set as \<Longrightarrow>
   chain_Get (fold (\<lambda>x. setVar h (fst x) (snd x)) writes st) as b nm = chain_Get st as b nm"
  by (induction writes arbitrary: st) (simp_all add: chain_Get_setVar_other)

lemma Reset_valid:
  "writeEnv (fst (Reset r st)) = Some h \<Longrightarrow>
   \<forall>a\<in>set (local_layer h # parents h). a < length (snd (Reset r st))"
proof -
  assume "writeEnv (fst (Reset r st)) = Some h"
  then have h: "h = snd (overlay_over_base st (Env r))" by (simp add: Reset_fields)
  have "layer_ok (snd (Reset r st)) (snd (overlay_over_base st (Env r)))"
    by (simp add: Reset_store)
  with h show ?thesis by (simp add: layer_ok_def overlay_over_base_def)
qed


section \<open>Properties of the in-memory filesystem\<close>

text \<open>
  Claim C10. For every path that normalizes to the empty string, such as \<open>""\<close>, \<open>"."\<close>,
  \<open>"/"\<close> and \<open>"./"\<close>, both \<open>Remove\<close> and \<open>RemoveAll\<close> return \<open>nil\<close> and leave the
  filesystem tree unchanged; in particular \<open>RemoveAll("/")\<close> deletes nothing under the
  root.
\<close>

theorem Remove_empty_path_noop:
  "(\<forall>m p. cleanse p = [] \<longrightarrow> Remove m p = Some (None, m) \<and> RemoveAll m p = Some (None, m))
   \<and> cleanse [] = [] \<and> cleanse ''.'' = [] \<and> cleanse ''/'' = [] \<and> cleanse ''./'' = []"
  by (simp add: Remove_def RemoveAll_def dir_Remove_def dir_RemoveAll_def cleanse_def Clean_def
      TrimPrefix_def separator_def)

theorem Remove_empty_path_noop_witness:
  "cleanse ''/'' = []
   \<and> RemoveAll (snd (MkdirAll (newMemFS 0) ''a/b'' 0x1ED 1)) ''/''
       = Some (None, snd (MkdirAll (newMemFS 0) ''a/b'' 0x1ED 1))
   \<and> Remove (snd (MkdirAll (newMemFS 0) ''a/b'' 0x1ED 1)) ''/''
       = Some (None, snd (MkdirAll (newMemFS 0) ''a/b'' 0x1ED 1))"
  using Remove_empty_path_noop by blast



text \<open>
  Claim C7. \<open>ReadDir\<close> returns the entries of a directory sorted ascending by name,
  whatever the order in which its files and subdirectories were inserted, and returns
  \<open>NotExist\<close> for an absent directory. The tree \<open>m\<close> is arbitrary, so the order of its
  maps is too; the names returned are the sorted list of the names of the entries.
\<close>

theorem ReadDir_sorted:
  "(case getDir (dir m) (cleanse p) of
      Inl e \<Rightarrow> ReadDir m p = Inl (Err ErrNotExist)
    | Inr sub \<Rightarrow>
        (\<exists>es. ReadDir m p = Inr es \<and> sorted (map name es) \<and> mset es = mset (entries sub)
              \<and> map name es = sort (map name (entries sub))))"
proof (cases "getDir (dir m) (cleanse p)")
  case (Inl e)
  then show ?thesis
    by (simp add: ReadDir_def dir_ReadDir_getDir)
next
  case (Inr sub)
  let ?es = "sort_key name (entries sub)"
  have "ReadDir m p = Inr ?es"
    using Inr by (simp add: ReadDir_def dir_ReadDir_getDir)
  moreover have "sorted (map name ?es)"
    by (rule sorted_sort_key)
  moreover have "mset ?es = mset (entries sub)"
    by simp
  moreover have "map name ?es = sort (map name (entries sub))"
    by (rule map_sort_key)
  ultimately show ?thesis
    using Inr by simp
qed

text \<open>
  Claim C5, as stated, fails at the root directory: \<open>Remove\<close> and \<open>RemoveAll\<close> return at
  once for a path that normalizes to the empty name, so \<open>RemoveAll("/")\<close> on a populated
  root succeeds without removing anything, \<open>Stat("/")\<close> still finds the root, and
  \<open>Remove("/")\<close> returns \<open>nil\<close>, not \<open>Invalid\<close>.
\<close>

theorem RemoveAll_root_counterexample:
  "getDir (dir tree_a_b) (cleanse ''/'') = Inr (dir tree_a_b)
   \<and> dirs (dir tree_a_b) \<noteq> []
   \<and> RemoveAll tree_a_b ''/'' = Some (None, tree_a_b)
   \<and> Stat tree_a_b ''/'' = Inr \<lparr>name = ''.'', size' = 0x100, modified = 1, mode = 0x1FF OR ModeDir\<rparr>
   \<and> Remove tree_a_b ''/'' = Some (None, tree_a_b)"
  by code_simp

text \<open>
  Claim C5, amended. In a filesystem built by the operations, for every populated
  directory other than the root, at a path that names no file as well: \<open>RemoveAll\<close> on
  its path succeeds and \<open>Stat\<close> on that path then returns \<open>NotExist\<close>, while \<open>Remove\<close>
  on the same path returns \<open>Invalid\<close> and leaves the tree unchanged.
\<close>

theorem RemoveAll_populated:
  assumes "reachable m"
    and "cleanse p \<noteq> []"
    and "getDir (dir m) (cleanse p) = Inr sub"
    and "dirs sub \<noteq> [] \<or> files sub \<noteq> []"
    and "getFile (dir m) (cleanse p) = Inl e"
  shows "(\<exists>m'. RemoveAll m p = Some (None, m')
              \<and> Stat m' p = Inl (PathError ''stat'' (cleanse p) ErrNotExist))
         \<and> Remove m p = Some (Some (Err ErrInvalid), m)"
proof -
  have seg: "[] \<notin> set (Split (cleanse p))"
    using assms(2) by (rule cleanse_segments)
  have ok: "names_ok sub"
    using assms(1,2,3) by (rule reachable_names_ok)
  from removePath_populated [OF seg assms(3-5) ok] obtain d' where
    d': "removePath (dir m) (cleanse p) True = Some (None, d')"
    "getDir d' (cleanse p) = Inl (Err ErrNotExist)"
    "getFile d' (cleanse p) = Inl (Err ErrNotExist)"
    and plain: "removePath (dir m) (cleanse p) False = Some (Some (Err ErrInvalid), dir m)"
    by blast
  have "RemoveAll m p = Some (None, m\<lparr>dir := d'\<rparr>)"
    using d'(1) assms(2) cleanse_not_dot [of p] by (simp add: RemoveAll_def dir_RemoveAll_def)
  moreover have "Stat (m\<lparr>dir := d'\<rparr>) p = Inl (PathError ''stat'' (cleanse p) ErrNotExist)"
    using d'(2,3) by (simp add: Stat_def)
  moreover have "Remove m p = Some (Some (Err ErrInvalid), m)"
    using plain assms(2) cleanse_not_dot [of p] by (simp add: Remove_def dir_Remove_def)
  ultimately show ?thesis by blast
qed

theorem RemoveAll_populated_witness:
  "reachable tree_a_b_f
   \<and> cleanse ''/a/'' \<noteq> []
   \<and> getDir (dir tree_a_b_f) (cleanse ''/a/'') = Inr (the (map_of (dirs (dir tree_a_b_f)) ''a''))
   \<and> dirs (the (map_of (dirs (dir tree_a_b_f)) ''a'')) \<noteq> []
   \<and> getFile (dir tree_a_b_f) (cleanse ''/a/'') = Inl (Err ErrNotExist)
   \<and> (\<exists>m'. RemoveAll tree_a_b_f ''/a/'' = Some (None, m')
            \<and> Stat m' ''/a/'' = Inl (PathError ''stat'' (cleanse ''/a/'') ErrNotExist))
   \<and> Remove tree_a_b_f ''/a/'' = Some (Some (Err ErrInvalid), tree_a_b_f)"
proof -
  have h0: "reachable tree_a_b_f"
    unfolding tree_a_b_f_def tree_a_b_def
    by (intro reach_WriteFile reach_MkdirAll reach_new)
  have h1: "cleanse ''/a/'' \<noteq> []"
    by code_simp
  have h2: "getDir (dir tree_a_b_f) (cleanse ''/a/'')
            = Inr (the (map_of (dirs (dir tree_a_b_f)) ''a''))"
    by code_simp
  have h3: "dirs (the (map_of (dirs (dir tree_a_b_f)) ''a'')) \<noteq> []
            \<or> files (the (map_of (dirs (dir tree_a_b_f)) ''a'')) \<noteq> []"
    by code_simp
  have h3': "dirs (the (map_of (dirs (dir tree_a_b_f)) ''a'')) \<noteq> []"
    by code_simp
  have h4: "getFile (dir tree_a_b_f) (cleanse ''/a/'') = Inl (Err ErrNotExist)"
    by code_simp
  from RemoveAll_populated [OF h0 h1 h2 h3 h4] h0 h1 h2 h3' h4 show ?thesis
    by blast
qed

text \<open>
  Claim C9, as stated, fails: \<open>ReadDir\<close>, \<open>Remove\<close> and \<open>MkdirAll\<close> (as \<open>RemoveAll\<close> and
  \<open>WriteFile\<close>) return the bare \<open>fs.ErrNotExist\<close>, \<open>fs.ErrInvalid\<close> and \<open>fs.ErrExist\<close>,
  which carry neither an operation nor a path.
\<close>

theorem bare_error_counterexample:
  "ReadDir (newMemFS 0) ''x'' = Inl (Err ErrNotExist)
   \<and> Remove tree_a_b ''a'' = Some (Some (Err ErrInvalid), tree_a_b)
   \<and> fst (MkdirAll tree_f ''f/x'' 0x1ED 2) = Some (Err ErrExist)"
  by code_simp

text \<open>
  Claim C9, amended. The failures of the operations are returned to the caller, not
  swallowed, and only \<open>Stat\<close>, \<open>Open\<close> and \<open>OpenFile\<close> attach the operation and the path.
  What an error can be: \<open>Stat\<close>, \<open>Open\<close> and \<open>OpenFile\<close> return \<open>NotExist\<close> with the
  operation (\<open>stat\<close>, \<open>open\<close>, \<open>openfile\<close>) and the normalized path; \<open>ReadDir\<close>,
  \<open>WriteFile\<close>, \<open>MkdirAll\<close>, \<open>Remove\<close> and \<open>RemoveAll\<close> return the bare \<open>NotExist\<close>,
  \<open>Exist\<close> or \<open>Invalid\<close> without operation or path; \<open>OpenFile\<close> passes on the error of
  the write it makes; the file layer adds its own errors (a missing opener, a permission
  with the directory bit, a failing write). What is reported: where neither a file nor a
  directory is at the path, \<open>Stat\<close> and \<open>Open\<close> return their \<open>NotExist\<close> path errors
  (\<open>Stat\<close> in no other case) and \<open>Remove\<close> and \<open>RemoveAll\<close> the bare \<open>NotExist\<close>, leaving
  the tree as it was; \<open>Open\<close> of a file without opener, at a path that is not the
  root, returns the missing-opener error;
  \<open>OpenFile\<close> of a missing file without \<open>O_CREATE\<close> returns its \<open>NotExist\<close> path error,
  of a file without opener and without \<open>O_TRUNC\<close> the missing-opener error, and when it
  writes (a missing file with \<open>O_CREATE\<close>, an existing one with \<open>O_TRUNC\<close>) an error of
  the write is its result; \<open>ReadDir\<close> returns \<open>NotExist\<close> exactly when no directory is at
  the path; \<open>WriteFile\<close> returns the permission error for a permission with the
  directory bit, \<open>NotExist\<close> when the directory that should hold the file is missing,
  and over an existing file whatever error \<open>overwrite\<close> of that file gives; \<open>MkdirAll\<close>
  returns \<open>Exist\<close> when a leading part of the path names a file;
  \<open>Remove\<close> of a populated directory, not the root and not shadowed by a file, returns
  \<open>Invalid\<close> and leaves the tree as it was.
\<close>

theorem VFS_error_shapes:
  "(\<forall>e. Stat m p = Inl e \<longrightarrow> e = PathError ''stat'' (cleanse p) ErrNotExist)
   \<and> (\<forall>e. Open m p = Inl e \<longrightarrow> e = PathError ''open'' (cleanse p) ErrNotExist \<or> e = MissingOpener)
   \<and> (\<forall>e. fst (OpenFile m p flag perm now) = Inl e \<longrightarrow>
          e = PathError ''openfile'' (cleanse p) ErrNotExist \<or> e = MissingOpener
          \<or> fst (WriteFile m p [] perm now) = Some e)
   \<and> (\<forall>e. ReadDir m p = Inl e \<longrightarrow> e = Err ErrNotExist)
   \<and> (\<forall>e. fst (WriteFile m p data perm now) = Some e \<longrightarrow>
          e = Err ErrNotExist \<or> e = InvalidPerm perm \<or> e = MissingOpener \<or> e = CannotWrite
          \<or> (\<exists>s. e = FailedToRead (BaseError s)) \<or> (\<exists>s. e = BaseError s))
   \<and> (\<forall>e. fst (MkdirAll m p perm now) = Some e \<longrightarrow> e = Err ErrExist)
   \<and> (\<forall>e m'. Remove m p = Some (Some e, m') \<longrightarrow> e = Err ErrNotExist \<or> e = Err ErrInvalid)
   \<and> (\<forall>e m'. RemoveAll m p = Some (Some e, m') \<longrightarrow> e = Err ErrNotExist)
   \<and> (Stat m p = Inl (PathError ''stat'' (cleanse p) ErrNotExist)
        \<longleftrightarrow> isl (getFile (dir m) (cleanse p)) \<and> isl (getDir (dir m) (cleanse p)))
   \<and> (isl (getFile (dir m) (cleanse p)) \<and> isl (getDir (dir m) (cleanse p)) \<longrightarrow>
        Open m p = Inl (PathError ''open'' (cleanse p) ErrNotExist)
        \<and> Remove m p = Some (Some (Err ErrNotExist), m)
        \<and> RemoveAll m p = Some (Some (Err ErrNotExist), m))
   \<and> (\<forall>f. cleanse p \<noteq> [] \<and> getFile (dir m) (cleanse p) = Inr f \<and> opener f = None \<longrightarrow>
          Open m p = Inl MissingOpener)
   \<and> (isl (getFile (dir m) (cleanse p)) \<and> flag AND O_CREATE = 0 \<longrightarrow>
        OpenFile m p flag perm now = (Inl (PathError ''openfile'' (cleanse p) ErrNotExist), m))
   \<and> (\<forall>f. getFile (dir m) (cleanse p) = Inr f \<and> opener f = None \<and> flag AND O_TRUNC = 0 \<longrightarrow>
          OpenFile m p flag perm now = (Inl MissingOpener, m))
   \<and> (\<forall>e. (if isl (getFile (dir m) (cleanse p)) then flag AND O_CREATE \<noteq> 0
           else flag AND O_TRUNC \<noteq> 0)
          \<and> fst (WriteFile m p [] perm now) = Some e \<longrightarrow>
          OpenFile m p flag perm now = (Inl e, snd (WriteFile m p [] perm now)))
   \<and> (ReadDir m p = Inl (Err ErrNotExist) \<longleftrightarrow> isl (getDir (dir m) (cleanse p)))
   \<and> (perm AND ModeDir \<noteq> 0 \<longrightarrow> WriteFile m p data perm now = (Some (InvalidPerm perm), m))
   \<and> (\<forall>q nm. perm AND ModeDir = 0 \<and> cleanse p = q @ separator # nm \<and> separator \<notin> set nm
             \<and> isl (getDir (dir m) q) \<longrightarrow>
             WriteFile m p data perm now = (Some (Err ErrNotExist), m))
   \<and> (\<forall>f. perm AND ModeDir = 0 \<and> getFile (dir m) (cleanse p) = Inr f \<longrightarrow>
          fst (WriteFile m p data perm now) = fst (overwrite f data perm now))
   \<and> (\<forall>q f. getFile (dir m) q = Inr f \<and> q \<noteq> []
            \<and> (cleanse p = q \<or> (\<exists>rest. cleanse p = q @ separator # rest)) \<longrightarrow>
            fst (MkdirAll m p perm now) = Some (Err ErrExist))
   \<and> (\<forall>sub. cleanse p \<noteq> [] \<and> getDir (dir m) (cleanse p) = Inr sub
            \<and> (dirs sub \<noteq> [] \<or> files sub \<noteq> []) \<and> isl (getFile (dir m) (cleanse p)) \<longrightarrow>
            Remove m p = Some (Some (Err ErrInvalid), m))"
proof -
  let ?d = "dir m" and ?c = "cleanse p"
  have s1: "\<forall>e. Stat m p = Inl e \<longrightarrow> e = PathError ''stat'' ?c ErrNotExist"
    by (auto simp: Stat_def split: sum.splits)
  have s2: "\<forall>e. Open m p = Inl e \<longrightarrow> e = PathError ''open'' ?c ErrNotExist \<or> e = MissingOpener"
    by (auto simp: Open_def dir_Open_def file_open_def split: sum.splits if_splits)
  have s3: "\<forall>e. fst (OpenFile m p flag perm now) = Inl e \<longrightarrow>
              e = PathError ''openfile'' ?c ErrNotExist \<or> e = MissingOpener
              \<or> fst (WriteFile m p [] perm now) = Some e"
    by (auto simp: OpenFile_def WriteFile_def file_open_def
             split: sum.splits if_splits prod.splits option.splits)
  have s4: "\<forall>e. ReadDir m p = Inl e \<longrightarrow> e = Err ErrNotExist"
    by (auto simp: ReadDir_def dir_ReadDir_getDir split: sum.splits)
  have s5: "\<forall>e. fst (WriteFile m p data perm now) = Some e \<longrightarrow>
              e = Err ErrNotExist \<or> e = InvalidPerm perm \<or> e = MissingOpener \<or> e = CannotWrite
              \<or> (\<exists>s. e = FailedToRead (BaseError s)) \<or> (\<exists>s. e = BaseError s)"
    using dir_WriteFile_error [of ?d ?c data perm now] by (simp add: WriteFile_def)
  have s6: "\<forall>e. fst (MkdirAll m p perm now) = Some e \<longrightarrow> e = Err ErrExist"
    using dir_MkdirAll_error [of ?d ?c perm now] by (simp add: MkdirAll_def)
  have s7: "\<forall>e m'. Remove m p = Some (Some e, m') \<longrightarrow> e = Err ErrNotExist \<or> e = Err ErrInvalid"
    by (auto simp: Remove_def dir_Remove_def bind_eq_Some_conv split: if_splits
             dest: removePath_error)
  have s8: "\<forall>e m'. RemoveAll m p = Some (Some e, m') \<longrightarrow> e = Err ErrNotExist"
    by (auto simp: RemoveAll_def dir_RemoveAll_def bind_eq_Some_conv split: if_splits
             dest: removePath_error)
  have r1: "Stat m p = Inl (PathError ''stat'' ?c ErrNotExist)
            \<longleftrightarrow> isl (getFile ?d ?c) \<and> isl (getDir ?d ?c)"
    by (auto simp: Stat_def split: sum.splits)
  have r2: "isl (getFile ?d ?c) \<and> isl (getDir ?d ?c) \<longrightarrow>
              Open m p = Inl (PathError ''open'' ?c ErrNotExist)
              \<and> Remove m p = Some (Some (Err ErrNotExist), m)
              \<and> RemoveAll m p = Some (Some (Err ErrNotExist), m)"
  proof
    assume a: "isl (getFile ?d ?c) \<and> isl (getDir ?d ?c)"
    then obtain e1 e2 where gf: "getFile ?d ?c = Inl e1" and gd: "getDir ?d ?c = Inl e2"
      by (auto simp: isl_def)
    have ne: "?c \<noteq> []" using gd by (rule missing_not_root)
    have nd: "?c \<noteq> ''.''" by (rule cleanse_not_dot)
    have rp: "removePath ?d ?c r = Some (Some (Err ErrNotExist), ?d)" for r
      by (rule removePath_missing [OF clean_name_cleanse ne gf gd])
    have "Open m p = Inl (PathError ''open'' ?c ErrNotExist)"
      using gf gd ne nd by (simp add: Open_def dir_Open_def)
    moreover have "Remove m p = Some (Some (Err ErrNotExist), m)"
      using rp ne nd by (simp add: Remove_def dir_Remove_def)
    moreover have "RemoveAll m p = Some (Some (Err ErrNotExist), m)"
      using rp ne nd by (simp add: RemoveAll_def dir_RemoveAll_def)
    ultimately show "Open m p = Inl (PathError ''open'' ?c ErrNotExist)
                     \<and> Remove m p = Some (Some (Err ErrNotExist), m)
                     \<and> RemoveAll m p = Some (Some (Err ErrNotExist), m)"
      by blast
  qed
  have r3: "\<forall>f. ?c \<noteq> [] \<and> getFile ?d ?c = Inr f \<and> opener f = None \<longrightarrow>
              Open m p = Inl MissingOpener"
    using cleanse_not_dot [of p] by (simp add: Open_def dir_Open_def file_open_def)
  have r4: "isl (getFile ?d ?c) \<and> flag AND O_CREATE = 0 \<longrightarrow>
              OpenFile m p flag perm now = (Inl (PathError ''openfile'' ?c ErrNotExist), m)"
    by (auto simp: OpenFile_def isl_def)
  have r4b: "\<forall>f. getFile ?d ?c = Inr f \<and> opener f = None \<and> flag AND O_TRUNC = 0 \<longrightarrow>
               OpenFile m p flag perm now = (Inl MissingOpener, m)"
    by (simp add: OpenFile_def file_open_def)
  have r5: "\<forall>e. (if isl (getFile ?d ?c) then flag AND O_CREATE \<noteq> 0 else flag AND O_TRUNC \<noteq> 0)
              \<and> fst (WriteFile m p [] perm now) = Some e \<longrightarrow>
              OpenFile m p flag perm now = (Inl e, snd (WriteFile m p [] perm now))"
    by (auto simp: OpenFile_def WriteFile_def isl_def split: sum.splits prod.splits if_splits)
  have r6: "ReadDir m p = Inl (Err ErrNotExist) \<longleftrightarrow> isl (getDir ?d ?c)"
    by (auto simp: ReadDir_def dir_ReadDir_getDir split: sum.splits)
  have r7: "perm AND ModeDir \<noteq> 0 \<longrightarrow> WriteFile m p data perm now = (Some (InvalidPerm perm), m)"
    by (subst WriteFile_def, subst (1 2) dir_WriteFile.simps) simp
  have r8: "\<forall>q nm. perm AND ModeDir = 0 \<and> ?c = q @ separator # nm \<and> separator \<notin> set nm
              \<and> isl (getDir ?d q) \<longrightarrow>
              WriteFile m p data perm now = (Some (Err ErrNotExist), m)"
  proof (intro allI impI)
    fix q nm
    assume a: "perm AND ModeDir = 0 \<and> ?c = q @ separator # nm \<and> separator \<notin> set nm
               \<and> isl (getDir ?d q)"
    then obtain e where gd: "getDir ?d q = Inl e" by (auto simp: isl_def)
    from a have "dir_WriteFile ?d ?c data perm now = (Some (Err ErrNotExist), ?d)"
      using dir_WriteFile_no_parent [of perm nm ?d q e data now] gd by simp
    then show "WriteFile m p data perm now = (Some (Err ErrNotExist), m)"
      by (simp add: WriteFile_def)
  qed
  have r8b: "\<forall>f. perm AND ModeDir = 0 \<and> getFile ?d ?c = Inr f \<longrightarrow>
               fst (WriteFile m p data perm now) = fst (overwrite f data perm now)"
  proof (intro allI impI)
    fix f
    assume a: "perm AND ModeDir = 0 \<and> getFile ?d ?c = Inr f"
    have "fst (dir_WriteFile ?d ?c data perm now) = fst (overwrite f data perm now)"
      using dir_WriteFile_existing [where perm = perm and q = ?c and d = ?d and f = f
          and data = data and now = now] clean_name_cleanse [of p] a
      by simp
    then show "fst (WriteFile m p data perm now) = fst (overwrite f data perm now)"
      by (simp add: WriteFile_def)
  qed
  have r9: "\<forall>q f. getFile ?d q = Inr f \<and> q \<noteq> []
              \<and> (?c = q \<or> (\<exists>rest. ?c = q @ separator # rest)) \<longrightarrow>
              fst (MkdirAll m p perm now) = Some (Err ErrExist)"
  proof (intro allI impI)
    fix q f
    assume a: "getFile ?d q = Inr f \<and> q \<noteq> [] \<and> (?c = q \<or> (\<exists>rest. ?c = q @ separator # rest))"
    then have cne: "?c \<noteq> []" by auto
    have "set (Split q) \<subseteq> set (Split ?c)"
      using a by (auto simp: Split_append_Split)
    then have "clean_name q"
      using cleanse_segments [OF cne] by (auto simp: clean_name_def)
    with a have "fst (dir_MkdirAll ?d ?c perm now) = Some (Err ErrExist)"
      using dir_MkdirAll_blocked [of ?d q f ?c perm now] by blast
    then show "fst (MkdirAll m p perm now) = Some (Err ErrExist)"
      by (simp add: MkdirAll_def)
  qed
  have r10: "\<forall>sub. ?c \<noteq> [] \<and> getDir ?d ?c = Inr sub \<and> (dirs sub \<noteq> [] \<or> files sub \<noteq> [])
               \<and> isl (getFile ?d ?c) \<longrightarrow>
               Remove m p = Some (Some (Err ErrInvalid), m)"
  proof (intro allI impI)
    fix sub
    assume a: "?c \<noteq> [] \<and> getDir ?d ?c = Inr sub \<and> (dirs sub \<noteq> [] \<or> files sub \<noteq> [])
               \<and> isl (getFile ?d ?c)"
    then obtain e where gf: "getFile ?d ?c = Inl e" by (auto simp: isl_def)
    from a have seg: "[] \<notin> set (Split ?c)" by (simp add: cleanse_segments)
    from a have "removePath ?d ?c False = Some (Some (Err ErrInvalid), ?d)"
      using removePath_plain_populated [OF seg _ _ gf, of sub] by blast
    then show "Remove m p = Some (Some (Err ErrInvalid), m)"
      using a cleanse_not_dot [of p] by (simp add: Remove_def dir_Remove_def)
  qed
  show ?thesis
    by (intro conjI) (fact s1 s2 s3 s4 s5 s6 s7 s8 r1 r2 r3 r4 r4b r5 r6 r7 r8 r8b r9 r10)+
qed


theorem VFS_error_shapes_witness:
  "isl (getFile (dir (newMemFS 0)) (cleanse ''d/x'')) \<and> isl (getDir (dir (newMemFS 0)) (cleanse ''d/x''))
   \<and> isl (getDir (dir (newMemFS 0)) ''d'')
   \<and> Stat (newMemFS 0) ''d/x'' = Inl (PathError ''stat'' ''d/x'' ErrNotExist)
   \<and> Open (newMemFS 0) ''d/x'' = Inl (PathError ''open'' ''d/x'' ErrNotExist)
   \<and> OpenFile (newMemFS 0) ''d/x'' 0 0x1A4 1
       = (Inl (PathError ''openfile'' ''d/x'' ErrNotExist), newMemFS 0)
   \<and> fst (OpenFile (newMemFS 0) ''d/x'' O_CREATE 0x1A4 1) = Inl (Err ErrNotExist)
   \<and> ReadDir (newMemFS 0) ''d/x'' = Inl (Err ErrNotExist)
   \<and> WriteFile (newMemFS 0) ''d/x'' [1] 0x1A4 1 = (Some (Err ErrNotExist), newMemFS 0)
   \<and> Remove (newMemFS 0) ''d/x'' = Some (Some (Err ErrNotExist), newMemFS 0)
   \<and> RemoveAll (newMemFS 0) ''d/x'' = Some (Some (Err ErrNotExist), newMemFS 0)
   \<and> getFile (dir tree_f) ''f'' \<noteq> Inl (Err ErrNotExist)
   \<and> fst (MkdirAll tree_f ''f/x'' 0x1ED 2) = Some (Err ErrExist)
   \<and> Remove tree_a_b ''a'' = Some (Some (Err ErrInvalid), tree_a_b)
   \<and> fst (WriteFile tree_lazy ''f'' [1] 0x1A4 2) = Some CannotWrite"
proof -
  let ?m = "newMemFS 0"
  have c: "cleanse ''d/x'' = ''d/x''"
    by code_simp
  have c': "''d/x'' = ''d'' @ separator # ''x''"
    by (simp add: separator_def)
  have gf: "isl (getFile (dir ?m) (cleanse ''d/x''))"
    by code_simp
  have gd: "isl (getDir (dir ?m) (cleanse ''d/x''))"
    by code_simp
  have gq: "isl (getDir (dir ?m) ''d'')"
    by code_simp
  have pe: "(0x1A4 :: FileMode) AND ModeDir = 0" "separator \<notin> set ''x''"
    "(0 :: int) AND O_CREATE = 0" "O_CREATE AND O_CREATE \<noteq> 0"
    by code_simp+
  note t = VFS_error_shapes [of ?m "''d/x''" 0 "0x1A4" 1 "[1]"]
  note u = VFS_error_shapes [of ?m "''d/x''" O_CREATE "0x1A4" 1 "[]"]
  have a1: "Stat ?m ''d/x'' = Inl (PathError ''stat'' ''d/x'' ErrNotExist)"
    using t [THEN conjunct2, THEN conjunct2, THEN conjunct2, THEN conjunct2, THEN conjunct2, THEN conjunct2, THEN conjunct2, THEN conjunct2, THEN conjunct1] gf gd c by simp
  have a2: "Open ?m ''d/x'' = Inl (PathError ''open'' ''d/x'' ErrNotExist)
            \<and> Remove ?m ''d/x'' = Some (Some (Err ErrNotExist), ?m)
            \<and> RemoveAll ?m ''d/x'' = Some (Some (Err ErrNotExist), ?m)"
    using t [THEN conjunct2, THEN conjunct2, THEN conjunct2, THEN conjunct2, THEN conjunct2, THEN conjunct2, THEN conjunct2, THEN conjunct2, THEN conjunct2, THEN conjunct1] gf gd c by simp
  have a3: "OpenFile ?m ''d/x'' 0 0x1A4 1 = (Inl (PathError ''openfile'' ''d/x'' ErrNotExist), ?m)"
    using t [THEN conjunct2, THEN conjunct2, THEN conjunct2, THEN conjunct2, THEN conjunct2, THEN conjunct2, THEN conjunct2, THEN conjunct2, THEN conjunct2, THEN conjunct2, THEN conjunct2, THEN conjunct1] gf pe(3) c by simp
  have a4: "ReadDir ?m ''d/x'' = Inl (Err ErrNotExist)"
    using t [THEN conjunct2, THEN conjunct2, THEN conjunct2, THEN conjunct2, THEN conjunct2, THEN conjunct2, THEN conjunct2, THEN conjunct2, THEN conjunct2, THEN conjunct2, THEN conjunct2, THEN conjunct2, THEN conjunct2, THEN conjunct2, THEN conjunct1] gd by simp
  have a5: "WriteFile ?m ''d/x'' [1] 0x1A4 1 = (Some (Err ErrNotExist), ?m)"
    using t [THEN conjunct2, THEN conjunct2, THEN conjunct2, THEN conjunct2, THEN conjunct2, THEN conjunct2, THEN conjunct2, THEN conjunct2, THEN conjunct2, THEN conjunct2, THEN conjunct2, THEN conjunct2, THEN conjunct2, THEN conjunct2, THEN conjunct2, THEN conjunct2, THEN conjunct1, rule_format, of "''d''" "''x''"] pe(1,2) c c' gq by simp
  have a5': "fst (WriteFile ?m ''d/x'' [] 0x1A4 1) = Some (Err ErrNotExist)"
    using u [THEN conjunct2, THEN conjunct2, THEN conjunct2, THEN conjunct2, THEN conjunct2, THEN conjunct2, THEN conjunct2, THEN conjunct2, THEN conjunct2, THEN conjunct2, THEN conjunct2, THEN conjunct2, THEN conjunct2, THEN conjunct2, THEN conjunct2, THEN conjunct2, THEN conjunct1, rule_format, of "''d''" "''x''"] pe(1,2) c c' gq by simp
  have a6: "fst (OpenFile ?m ''d/x'' O_CREATE 0x1A4 1) = Inl (Err ErrNotExist)"
    using u [THEN conjunct2, THEN conjunct2, THEN conjunct2, THEN conjunct2, THEN conjunct2, THEN conjunct2, THEN conjunct2, THEN conjunct2, THEN conjunct2, THEN conjunct2, THEN conjunct2, THEN conjunct2, THEN conjunct2, THEN conjunct1, rule_format, of "Err ErrNotExist"] gf pe(4) a5' by simp
  have f1: "getFile (dir tree_f) ''f'' = Inr (the (map_of (files (dir tree_f)) ''f''))"
    by code_simp
  have f2: "cleanse ''f/x'' = ''f'' @ separator # ''x''"
    by code_simp
  have a7: "fst (MkdirAll tree_f ''f/x'' 0x1ED 2) = Some (Err ErrExist)"
    using VFS_error_shapes [of tree_f "''f/x''" 0 "0x1ED" 2 "[]", THEN conjunct2, THEN conjunct2, THEN conjunct2, THEN conjunct2, THEN conjunct2, THEN conjunct2, THEN conjunct2, THEN conjunct2, THEN conjunct2, THEN conjunct2, THEN conjunct2, THEN conjunct2, THEN conjunct2, THEN conjunct2, THEN conjunct2, THEN conjunct2, THEN conjunct2, THEN conjunct2, THEN conjunct1, rule_format,
        of "''f''" "the (map_of (files (dir tree_f)) ''f'')"] f1 f2
    by blast
  have g1: "cleanse ''a'' \<noteq> []"
    "getDir (dir tree_a_b) (cleanse ''a'') = Inr (the (map_of (dirs (dir tree_a_b)) ''a''))"
    "dirs (the (map_of (dirs (dir tree_a_b)) ''a'')) \<noteq> []"
    "isl (getFile (dir tree_a_b) (cleanse ''a''))"
    by code_simp+
  have a8: "Remove tree_a_b ''a'' = Some (Some (Err ErrInvalid), tree_a_b)"
    using VFS_error_shapes [of tree_a_b "''a''" 0 "0x1ED" 2 "[]", THEN conjunct2, THEN conjunct2, THEN conjunct2, THEN conjunct2, THEN conjunct2, THEN conjunct2, THEN conjunct2, THEN conjunct2, THEN conjunct2, THEN conjunct2, THEN conjunct2, THEN conjunct2, THEN conjunct2, THEN conjunct2, THEN conjunct2, THEN conjunct2, THEN conjunct2, THEN conjunct2, THEN conjunct2, rule_format,
        of "the (map_of (dirs (dir tree_a_b)) ''a'')"] g1
    by blast
  have f1': "getFile (dir tree_f) ''f'' \<noteq> Inl (Err ErrNotExist)"
    using f1 by simp
  have l1: "getFile (dir tree_lazy) (cleanse ''f'')
            = Inr (the (map_of (files (dir tree_lazy)) ''f''))"
    by code_simp
  have l2: "fst (overwrite (the (map_of (files (dir tree_lazy)) ''f'')) [1] 0x1A4 2)
            = Some CannotWrite"
    by code_simp
  have a9: "fst (WriteFile tree_lazy ''f'' [1] 0x1A4 2) = Some CannotWrite"
    using VFS_error_shapes [of tree_lazy "''f''" 0 "0x1A4" 2 "[1]", THEN conjunct2, THEN conjunct2, THEN conjunct2, THEN conjunct2, THEN conjunct2, THEN conjunct2, THEN conjunct2, THEN conjunct2, THEN conjunct2, THEN conjunct2, THEN conjunct2, THEN conjunct2, THEN conjunct2, THEN conjunct2, THEN conjunct2, THEN conjunct2, THEN conjunct2, THEN conjunct1, rule_format,
        of "the (map_of (files (dir tree_lazy)) ''f'')"] pe(1) l1 l2
    by simp
  from gf gd gq a1 a2 a3 a4 a5 a6 a7 a8 a9 f1' show ?thesis
    by (simp only: simp_thms)
qed

text \<open>
  Claim C6 against the code: the second \<open>MkdirAll\<close> of the same path succeeds, but
  \<open>d.info.modified = time.Now()\<close> runs on every directory it walks through whether or not
  anything was created, so it is a no-op only while the clock stands still
  (\<open>dir_MkdirAll_again\<close>); otherwise it changes modification times, and nothing else
  (\<open>dir_MkdirAll_again_untimed\<close>). After \<open>MkdirAll("a/b", 0755)\<close> at time 1, the same
  call at time 2 succeeds and returns another tree: the modification time of the root
  and of \<open>a\<close> is now 2, and the listing of the root shows the entry \<open>a\<close> with the new
  time.
\<close>

theorem MkdirAll_twice_changes_mtime:
  "MkdirAll (newMemFS 0) ''a/b'' 0x1ED 1 = (None, tree_a_b)
   \<and> fst (MkdirAll tree_a_b ''a/b'' 0x1ED 2) = None
   \<and> snd (MkdirAll tree_a_b ''a/b'' 0x1ED 2) \<noteq> tree_a_b
   \<and> Stat tree_a_b ''a''
       = Inr \<lparr>name = ''a'', size' = 0x100, modified = 1, mode = 0x1ED OR ModeDir\<rparr>
   \<and> Stat (snd (MkdirAll tree_a_b ''a/b'' 0x1ED 2)) ''a''
       = Inr \<lparr>name = ''a'', size' = 0x100, modified = 2, mode = 0x1ED OR ModeDir\<rparr>
   \<and> ReadDir tree_a_b ''/''
       = Inr [\<lparr>name = ''a'', size' = 0x100, modified = 1, mode = 0x1ED OR ModeDir\<rparr>]
   \<and> ReadDir (snd (MkdirAll tree_a_b ''a/b'' 0x1ED 2)) ''/''
       = Inr [\<lparr>name = ''a'', size' = 0x100, modified = 2, mode = 0x1ED OR ModeDir\<rparr>]"
  by code_simp


section \<open>Properties of the command lookup\<close>

text \<open>
  Claim C2, as stated, fails where it says that the lookup fails when no entry yields an
  executable regular file: \<open>checkStat\<close> rejects a directory and a mode without execute
  bit and accepts everything else. With a named pipe of mode 0755 at \<open>/usr/bin/foo\<close> and
  nothing at \<open>/bin/foo\<close>, no candidate is a regular file, and the lookup returns
  \<open>/usr/bin/foo\<close>.
\<close>

theorem lookPathDir_pipe_counterexample:
  "pathList env_path = [''/bin'', ''/usr/bin'']
   \<and> host_pipe ''/bin/foo'' = Inl (OsError ''no such file or directory'')
   \<and> host_pipe ''/usr/bin/foo'' = Inr (ModeNamedPipe OR 0x1ED)
   \<and> \<not> IsRegular (ModeNamedPipe OR 0x1ED)
   \<and> lookPathDir host_pipe ''/'' env_path ''foo'' = Inr ''/usr/bin/foo''"
  by code_simp

text \<open>
  Claim C2, amended. The \<open>PATH\<close> variable is split on \<open>:\<close> and the entries are probed
  in order. A candidate whose stat fails, or that is a directory, or that has no
  execute-permission bit, is a miss and the search goes on; the first candidate that is
  not a directory and has an execute bit, regular file or not, is returned; if no entry
  yields one, the lookup fails with the command-not-found error naming the requested
  command, never with a permission error.
\<close>

theorem lookPathDir_first_hit:
  "lookPathDir host cwd env fl
   = (case List.find (hit host cwd fl) (SplitList (Variable_String (Environ_Get env ''PATH''))) of
        None \<Rightarrow> Inl (ExecutableNotFound fl)
      | Some elem \<Rightarrow> Inr (resolve cwd (candidate elem fl)))"
proof -
  have "SplitList s \<noteq> []" for s by (induction s) auto
  then show ?thesis
    by (simp add: lookPathDir_def pathList_def lookPathDir_loop_find Let_def)
qed

theorem lookPathDir_first_hit_witness:
  "\<not> hit host_noexec ''/'' ''foo'' ''/bin''
   \<and> hit host_noexec ''/'' ''foo'' ''/usr/bin''
   \<and> lookPathDir host_noexec ''/'' env_path ''foo'' = Inr ''/usr/bin/foo''
   \<and> lookPathDir host_empty ''/'' env_path ''foo'' = Inl (ExecutableNotFound ''foo'')"
proof -
  have p: "SplitList (Variable_String (Environ_Get env_path ''PATH'')) = [''/bin'', ''/usr/bin'']"
    by code_simp
  have a: "\<not> hit host_noexec ''/'' ''foo'' ''/bin''"
    by code_simp
  have b: "hit host_noexec ''/'' ''foo'' ''/usr/bin''"
    by code_simp
  have c: "resolve ''/'' (candidate ''/usr/bin'' ''foo'') = ''/usr/bin/foo''"
    by code_simp
  have d: "\<not> hit host_empty ''/'' ''foo'' ''/bin''" "\<not> hit host_empty ''/'' ''foo'' ''/usr/bin''"
    by (simp_all add: hit_def host_empty_def)
  have "lookPathDir host_noexec ''/'' env_path ''foo'' = Inr ''/usr/bin/foo''"
    using lookPathDir_first_hit [of host_noexec "''/''" env_path "''foo''"] p a b c by simp
  moreover have "lookPathDir host_empty ''/'' env_path ''foo'' = Inl (ExecutableNotFound ''foo'')"
    using lookPathDir_first_hit [of host_empty "''/''" env_path "''foo''"] p d by simp
  ultimately show ?thesis using a b by blast
qed

text \<open>
  Claim C3 against the code: a candidate is built and resolved as the claim says, but it
  is stat'ed with \<open>os.Stat\<close>, on the host, and \<open>lookPathDir\<close> receives no filesystem
  handle. With the executable \<open>/bin/foo\<close> in the virtual filesystem and nothing on the
  host, the lookup fails; with nothing in the virtual filesystem and an executable
  \<open>/usr/bin/foo\<close> on the host, it succeeds.
\<close>

theorem lookPathDir_stats_host:
  "Stat vfs_bin_foo ''/bin/foo'' = Inr \<lparr>name = ''foo'', size' = 1, modified = 2, mode = 0x1ED\<rparr>
   \<and> lookPathDir host_empty ''/'' env_path ''foo'' = Inl (ExecutableNotFound ''foo'')
   \<and> Stat (newMemFS 0) ''/usr/bin/foo'' = Inl (PathError ''stat'' ''usr/bin/foo'' ErrNotExist)
   \<and> lookPathDir host_noexec ''/'' env_path ''foo'' = Inr ''/usr/bin/foo''"
  by code_simp

section \<open>Properties of the Runner\<close>

text \<open>
  Claim C8, as stated, fails for \<open>PWD\<close>, \<open>IFS\<close> and \<open>OPTIND\<close>: \<open>Reset\<close> writes them
  without looking at the base. With \<open>IFS=":"\<close> in the base environment, the lookup after
  \<open>Reset\<close> gives the default whitespace set.
\<close>

theorem Reset_IFS_counterexample:
  "IsSet (Environ_Get (Env (WithEnv env_ifs (NewRunner 0 0))) ''IFS'')
   \<and> Environ_Get (Env (WithEnv env_ifs (NewRunner 0 0))) ''IFS'' = string_Variable '':''
   \<and> Reset_env (WithEnv env_ifs (NewRunner 0 0)) [] ''IFS'' = string_Variable default_IFS
   \<and> string_Variable default_IFS \<noteq> string_Variable '':''"
  by (simp add: Reset_env_unfold Reset_store Get_setVarString Get_seed Get_fresh
      WithEnv_def NewRunner_def env_ifs_def Environ_Get_def IsSet_def string_Variable_def
      zero_Variable_def default_IFS_def)

text \<open>
  Claim C8, amended. On every \<open>Reset\<close>, the first included, \<open>HOME="/"\<close> and the
  read-only \<open>UID\<close>, \<open>EUID\<close> and \<open>GID\<close> \<open>="0"\<close> are seeded only if the variable is not set
  in the base environment, whose value otherwise stays in effect; \<open>PWD\<close> (the current
  directory), \<open>IFS\<close> (space, tab, newline) and \<open>OPTIND\<close> (\<open>"1"\<close>) are written into the
  overlay unconditionally and shadow a value of the base.
\<close>

theorem Reset_seeds:
  "Reset_env r st ''HOME''
     = (if IsSet (Environ_Get (Env r) ''HOME'') then Environ_Get (Env r) ''HOME''
        else string_Variable ''/'')
   \<and> Reset_env r st ''UID''
     = (if IsSet (Environ_Get (Env r) ''UID'') then Environ_Get (Env r) ''UID''
        else readonly_Variable ''0'')
   \<and> Reset_env r st ''EUID''
     = (if IsSet (Environ_Get (Env r) ''EUID'') then Environ_Get (Env r) ''EUID''
        else readonly_Variable ''0'')
   \<and> Reset_env r st ''GID''
     = (if IsSet (Environ_Get (Env r) ''GID'') then Environ_Get (Env r) ''GID''
        else readonly_Variable ''0'')
   \<and> Reset_env r st ''PWD'' = string_Variable (if didReset r then origDir r else Dir r)
   \<and> Reset_env r st ''IFS'' = string_Variable default_IFS
   \<and> Reset_env r st ''OPTIND'' = string_Variable ''1''"
proof -
  let ?h = "snd (overlay_over_base st (Env r))"
  let ?st0 = "fst (overlay_over_base st (Env r))"
  have guarded: "overlay_Get (seed_unless_set ?h nm vr ?st0) ?h nm
                 = (if IsSet (Environ_Get (Env r) nm) then Environ_Get (Env r) nm else vr)"
    for nm vr
    by (simp add: Get_seed Get_fresh)
  have "Reset_env r st ''HOME''
        = overlay_Get (seed_unless_set ?h ''HOME'' (string_Variable ''/'') ?st0) ?h ''HOME''"
    by (simp add: Reset_env_unfold Reset_store Get_setVarString Get_seed)
  moreover have "Reset_env r st ''UID''
        = overlay_Get (seed_unless_set ?h ''UID'' (readonly_Variable ''0'') ?st0) ?h ''UID''"
    by (simp add: Reset_env_unfold Reset_store Get_setVarString Get_seed Get_fresh)
  moreover have "Reset_env r st ''EUID''
        = overlay_Get (seed_unless_set ?h ''EUID'' (readonly_Variable ''0'') ?st0) ?h ''EUID''"
    by (simp add: Reset_env_unfold Reset_store Get_setVarString Get_seed Get_fresh)
  moreover have "Reset_env r st ''GID''
        = overlay_Get (seed_unless_set ?h ''GID'' (readonly_Variable ''0'') ?st0) ?h ''GID''"
    by (simp add: Reset_env_unfold Reset_store Get_setVarString Get_seed Get_fresh)
  moreover have "Reset_env r st ''PWD'' = string_Variable (if didReset r then origDir r else Dir r)"
    by (simp add: Reset_env_unfold Reset_store Get_setVarString)
  moreover have "Reset_env r st ''IFS'' = string_Variable default_IFS"
    by (simp add: Reset_env_unfold Reset_store Get_setVarString)
  moreover have "Reset_env r st ''OPTIND'' = string_Variable ''1''"
    by (simp add: Reset_env_unfold Reset_store Get_setVarString)
  ultimately show ?thesis
    by (simp only: guarded simp_thms)
qed

theorem Reset_seeds_witness:
  "Reset_env (WithEnv env_home (NewRunner 0 0)) [] ''HOME'' = string_Variable ''/root''
   \<and> Reset_env (WithEnv env_home (NewRunner 0 0)) [] ''UID'' = readonly_Variable ''0''
   \<and> Reset_env (WithEnv env_home (NewRunner 0 0)) [] ''PWD'' = string_Variable ''/''"
  using Reset_seeds [of "WithEnv env_home (NewRunner 0 0)" "[]"]
  by (simp add: WithEnv_def NewRunner_def env_home_def Environ_Get_def IsSet_def
      string_Variable_def zero_Variable_def zero_Runner_def)

text \<open>
  Claim C1, as stated, fails for a node that is neither a file, a statement nor a
  command: \<open>Run\<close> returns the error of the \<open>default\<close> branch of its type switch before
  the overlay is merged. On a new Runner no fatal error, no handler error and no exit
  status are set, the claim has \<open>nil\<close>, and \<open>Run\<close> returns the node-type error; \<open>HOME\<close>
  is in the overlay and not in \<open>Vars\<close>.
\<close>

theorem Run_other_node_counterexample:
  "run_other \<noteq> None
   \<and> fst (the run_other) = Some (NodeTypeError ''*syntax.Word'')
   \<and> fatalErr (fst (snd (the run_other))) = None
   \<and> nonFatalHandlerErr (fst (snd (the run_other))) = None
   \<and> exit (fst (snd (the run_other))) = 0
   \<and> Vars (fst (snd (the run_other))) ''HOME'' = None
   \<and> overlay_Get (snd (snd (the run_other))) (the (writeEnv (fst (snd (the run_other))))) ''HOME''
       = string_Variable ''/''"
  by (simp add: run_other_def Run_def Let_def ex_idle_def clear_flags_def NewRunner_def
      Reset_Vars Reset_errs Reset_fields Reset_store Get_setVarString Get_seed Get_fresh
      zero_Runner_def Environ_Get_def IsSet_def zero_Variable_def)

text \<open>
  Claim C1, amended. \<open>Run\<close> resets a Runner that never was, fills the expansion
  configuration and clears the flags of the previous run; \<open>w2\<close> is the Runner at the
  type switch, and \<open>left w3\<close> says that the executor, started there on the node,
  returned and left the state \<open>w3\<close>. For a file, a statement or a command: whenever the
  executor leaves a state \<open>w3\<close> whose overlay is not \<open>nil\<close>, \<open>Run\<close> returns, and in no
  other case; it returns \<open>w3\<close> with the overlay merged into \<open>Vars\<close> and nothing else
  changed, and the outcome is read off \<open>w3\<close> in this order: the fatal error if set, else the handler error if set, else for a
  non-zero exit status an \<open>ExitStatus\<close> carrying the status converted to \<open>uint8\<close> (the
  status itself from 0 to 255), else \<open>nil\<close>. For any other node \<open>Run\<close> returns the error
  naming the node type together with the Runner as it was at the type switch: the
  overlay is not merged, and no function of the statement executor has any part in the
  result. Conversely every result of \<open>Run\<close> on a file, a statement or a command obeys the
  priority order on the returned Runner, whose \<open>Vars\<close> hold every variable of its overlay.
\<close>

theorem Run_outcome_priority:
  "(let w2 = clear_flags (fillExpandConfig ex (Some c)
                            (if didReset (fst w) then w else Reset (fst w) (snd w)));
        left = (\<lambda>w3. case nd of
                  File nm ss \<Rightarrow>
                    (\<exists>w'. stmts ex c ss ((fst w2)\<lparr>filename := nm\<rparr>, snd w2) = Some w'
                          \<and> (if exiting (fst w') then w3 = w'
                             else exitShell ex c (exit (fst w')) w' = Some w3))
                | Stmt s \<Rightarrow> stmt ex c s w2 = Some w3
                | Command cm \<Rightarrow> cmd ex c cm w2 = Some w3
                | OtherNode ty \<Rightarrow> False)
    in (\<forall>w3 h. left w3 \<longrightarrow> writeEnv (fst w3) = Some h \<longrightarrow>
          Run ex c nd w
          = Some (if fatalErr (fst w3) \<noteq> None then fatalErr (fst w3)
                  else if nonFatalHandlerErr (fst w3) \<noteq> None then nonFatalHandlerErr (fst w3)
                  else if exit (fst w3) \<noteq> 0 then Some (ExitStatus (word_of_int (exit (fst w3))))
                  else None,
                  ((fst w3)\<lparr>Vars := Vars (fst w3) ++ overlay_Each (snd w3) h\<rparr>, snd w3)))
       \<and> (\<forall>res w'. (\<forall>ty. nd \<noteq> OtherNode ty) \<longrightarrow> Run ex c nd w = Some (res, w') \<longrightarrow>
             (\<exists>w3 h. left w3 \<and> writeEnv (fst w3) = Some h))
       \<and> (\<forall>ty. Run ex c (OtherNode ty) w = Some (Some (NodeTypeError ty), w2)))
   \<and> (\<forall>ty ex'. fillExpandConfig ex' = fillExpandConfig ex \<longrightarrow>
         Run ex' c (OtherNode ty) w = Run ex c (OtherNode ty) w)
   \<and> (\<forall>res w'. (\<forall>ty. nd \<noteq> OtherNode ty) \<longrightarrow> Run ex c nd w = Some (res, w') \<longrightarrow>
         res = (if fatalErr (fst w') \<noteq> None then fatalErr (fst w')
                else if nonFatalHandlerErr (fst w') \<noteq> None then nonFatalHandlerErr (fst w')
                else if exit (fst w') \<noteq> 0 then Some (ExitStatus (word_of_int (exit (fst w'))))
                else None)
         \<and> (\<exists>h. writeEnv (fst w') = Some h \<and> overlay_Each (snd w') h \<subseteq>\<^sub>m Vars (fst w')))
   \<and> (\<forall>n. 0 \<le> n \<and> n < 256 \<longrightarrow> uint (word_of_int n :: 8 word) = n)"
proof -
  let ?w1 = "if didReset (fst w) then w else Reset (fst w) (snd w)"
  let ?w2 = "clear_flags (fillExpandConfig ex (Some c) ?w1)"
  have w1: "(if \<not> didReset (fst w) then Reset (fst w) (snd w) else w) = ?w1"
    by simp
  have run: "Run ex c nd w =
      (case nd of
         File nm ss \<Rightarrow>
           Option.bind (stmts ex c ss ((fst ?w2)\<lparr>filename := nm\<rparr>, snd ?w2))
             (\<lambda>w3. Option.bind
                      (if \<not> exiting (fst w3) then exitShell ex c (exit (fst w3)) w3 else Some w3)
                      reconcile)
       | Stmt s \<Rightarrow> Option.bind (stmt ex c s ?w2) reconcile
       | Command cm \<Rightarrow> Option.bind (cmd ex c cm ?w2) reconcile
       | OtherNode ty \<Rightarrow> Some (Some (NodeTypeError ty), ?w2))" for nd
    unfolding Run_def Let_def w1 by (rule refl)
  have rec: "reconcile w3
      = Some (if fatalErr (fst w3) \<noteq> None then fatalErr (fst w3)
              else if nonFatalHandlerErr (fst w3) \<noteq> None then nonFatalHandlerErr (fst w3)
              else if exit (fst w3) \<noteq> 0 then Some (ExitStatus (word_of_int (exit (fst w3))))
              else None,
              ((fst w3)\<lparr>Vars := Vars (fst w3) ++ overlay_Each (snd w3) h\<rparr>, snd w3))"
    if "writeEnv (fst w3) = Some h" for w3 h
    using that by (simp add: reconcile_def Let_def)
  have forward: "Run ex c nd w
      = Some (if fatalErr (fst w3) \<noteq> None then fatalErr (fst w3)
              else if nonFatalHandlerErr (fst w3) \<noteq> None then nonFatalHandlerErr (fst w3)
              else if exit (fst w3) \<noteq> 0 then Some (ExitStatus (word_of_int (exit (fst w3))))
              else None,
              ((fst w3)\<lparr>Vars := Vars (fst w3) ++ overlay_Each (snd w3) h\<rparr>, snd w3))"
    if ex: "(case nd of
               File nm ss \<Rightarrow>
                 (\<exists>w'. stmts ex c ss ((fst ?w2)\<lparr>filename := nm\<rparr>, snd ?w2) = Some w'
                       \<and> (if exiting (fst w') then w3 = w'
                          else exitShell ex c (exit (fst w')) w' = Some w3))
             | Stmt s \<Rightarrow> stmt ex c s ?w2 = Some w3
             | Command cm \<Rightarrow> cmd ex c cm ?w2 = Some w3
             | OtherNode ty \<Rightarrow> False)"
      and h: "writeEnv (fst w3) = Some h" for w3 h
  proof (cases nd)
    case (File nm ss)
    with ex obtain w' where a: "stmts ex c ss ((fst ?w2)\<lparr>filename := nm\<rparr>, snd ?w2) = Some w'"
      and b: "if exiting (fst w') then w3 = w' else exitShell ex c (exit (fst w')) w' = Some w3"
      by auto
    from b have "Option.bind
                   (if \<not> exiting (fst w') then exitShell ex c (exit (fst w')) w' else Some w')
                   reconcile = reconcile w3"
      by (cases "exiting (fst w')") simp_all
    with a File show ?thesis
      by (simp only: run node.case bind.bind_lunit rec [OF h])
  next
    case (Stmt s)
    with ex show ?thesis
      by (simp only: run node.case bind.bind_lunit rec [OF h])
  next
    case (Command cm)
    with ex show ?thesis
      by (simp only: run node.case bind.bind_lunit rec [OF h])
  next
    case (OtherNode ty)
    with ex show ?thesis by simp
  qed
  have onlyif:
    "\<exists>w3 h. (case nd of
               File nm ss \<Rightarrow>
                 (\<exists>w'. stmts ex c ss ((fst ?w2)\<lparr>filename := nm\<rparr>, snd ?w2) = Some w'
                       \<and> (if exiting (fst w') then w3 = w'
                          else exitShell ex c (exit (fst w')) w' = Some w3))
             | Stmt s \<Rightarrow> stmt ex c s ?w2 = Some w3
             | Command cm \<Rightarrow> cmd ex c cm ?w2 = Some w3
             | OtherNode ty \<Rightarrow> False)
            \<and> writeEnv (fst w3) = Some h"
    if nd: "\<forall>ty. nd \<noteq> OtherNode ty" and r: "Run ex c nd w = Some (res, w')" for res w'
  proof (cases nd)
    case (File nm ss)
    with r obtain wa w3 where a: "stmts ex c ss ((fst ?w2)\<lparr>filename := nm\<rparr>, snd ?w2) = Some wa"
      and b: "(if \<not> exiting (fst wa) then exitShell ex c (exit (fst wa)) wa else Some wa) = Some w3"
      and c: "reconcile w3 = Some (res, w')"
      by (auto simp only: run node.case bind_eq_Some_conv)
    from c obtain h where h: "writeEnv (fst w3) = Some h"
      by (auto simp: reconcile_def split: option.splits)
    from b have b': "if exiting (fst wa) then w3 = wa
                     else exitShell ex c (exit (fst wa)) wa = Some w3"
      by (cases "exiting (fst wa)") auto
    have "\<exists>w'. stmts ex c ss ((fst ?w2)\<lparr>filename := nm\<rparr>, snd ?w2) = Some w'
               \<and> (if exiting (fst w') then w3 = w'
                  else exitShell ex c (exit (fst w')) w' = Some w3)"
      using a b' by blast
    with h show ?thesis
      unfolding File node.case by blast
  next
    case (Stmt s)
    with r obtain w3 where a: "stmt ex c s ?w2 = Some w3" and c: "reconcile w3 = Some (res, w')"
      by (auto simp only: run node.case bind_eq_Some_conv)
    from c obtain h where "writeEnv (fst w3) = Some h"
      by (auto simp: reconcile_def split: option.splits)
    with a Stmt show ?thesis by auto
  next
    case (Command cm)
    with r obtain w3 where a: "cmd ex c cm ?w2 = Some w3" and c: "reconcile w3 = Some (res, w')"
      by (auto simp only: run node.case bind_eq_Some_conv)
    from c obtain h where "writeEnv (fst w3) = Some h"
      by (auto simp: reconcile_def split: option.splits)
    with a Command show ?thesis by auto
  next
    case (OtherNode ty)
    with nd show ?thesis by simp
  qed
  have other: "Run ex c (OtherNode ty) w = Some (Some (NodeTypeError ty), ?w2)" for ty
    by (simp only: run node.case)
  have indep: "Run ex' c (OtherNode ty) w = Run ex c (OtherNode ty) w"
    if "fillExpandConfig ex' = fillExpandConfig ex" for ty ex'
    using that by (simp only: Run_def Let_def node.case)
  have backward:
    "res = (if fatalErr (fst w') \<noteq> None then fatalErr (fst w')
            else if nonFatalHandlerErr (fst w') \<noteq> None then nonFatalHandlerErr (fst w')
            else if exit (fst w') \<noteq> 0 then Some (ExitStatus (word_of_int (exit (fst w'))))
            else None)
     \<and> (\<exists>h. writeEnv (fst w') = Some h \<and> overlay_Each (snd w') h \<subseteq>\<^sub>m Vars (fst w'))"
    if nd: "\<forall>ty. nd \<noteq> OtherNode ty" and r: "Run ex c nd w = Some (res, w')" for res w'
  proof -
    from nd r have "\<exists>w3. reconcile w3 = Some (res, w')"
      by (cases nd) (auto simp: Run_def Let_def bind_eq_Some_conv split: if_splits)
    then obtain w3 where "reconcile w3 = Some (res, w')" by blast
    then show ?thesis by (rule reconcile_Some)
  qed
  have byte: "uint (word_of_int n :: 8 word) = n" if "0 \<le> n \<and> n < 256" for n :: int
    using that by (simp add: uint_word_of_int take_bit_int_eq_self)
  show ?thesis
    unfolding Let_def
    by (intro conjI allI impI)
       (rule forward onlyif other indep backward [THEN conjunct1] backward [THEN conjunct2] byte;
        assumption)+
qed


theorem Run_outcome_priority_witness:
  "stmt ex_fail 0 0 run_fail_start
     = Some ((fst run_fail_start)\<lparr>fatalErr := Some (HandlerError ''boom''), exit := 3\<rparr>,
             snd run_fail_start)
   \<and> writeEnv (fst run_fail_start) \<noteq> None
   \<and> run_fail
     = Some (Some (HandlerError ''boom''),
             ((fst run_fail_start)
                \<lparr>fatalErr := Some (HandlerError ''boom''), exit := 3,
                 Vars := Vars (fst run_fail_start)
                         ++ overlay_Each (snd run_fail_start) (the (writeEnv (fst run_fail_start)))\<rparr>,
              snd run_fail_start))
   \<and> uint (word_of_int 3 :: 8 word) = 3"
proof -
  let ?w3 = "((fst run_fail_start)\<lparr>fatalErr := Some (HandlerError ''boom''), exit := 3\<rparr>,
              snd run_fail_start)"
  have nr: "\<not> didReset (fst (NewRunner 0 0, []))"
    by (simp add: NewRunner_def zero_Runner_def)
  have st: "stmt ex_fail 0 0 run_fail_start = Some ?w3"
    by (simp add: ex_fail_def)
  have we: "writeEnv (fst run_fail_start) = Some (snd (overlay_over_base [] (Env (NewRunner 0 0))))"
    by (simp add: run_fail_start_def clear_flags_def ex_fail_def ex_idle_def Reset_fields)
  then have we3: "writeEnv (fst ?w3) = Some (the (writeEnv (fst run_fail_start)))"
    by simp
  have start: "clear_flags (fillExpandConfig ex_fail (Some 0)
                  (if didReset (fst (NewRunner 0 0, [])) then (NewRunner 0 0, [])
                   else Reset (fst (NewRunner 0 0, [])) (snd (NewRunner 0 0, []))))
               = run_fail_start"
    using nr by (simp add: run_fail_start_def)
  have "Run ex_fail 0 (Stmt 0) (NewRunner 0 0, [])
        = Some (Some (HandlerError ''boom''),
                ((fst ?w3)\<lparr>Vars := Vars (fst ?w3)
                                  ++ overlay_Each (snd ?w3) (the (writeEnv (fst run_fail_start)))\<rparr>,
                 snd ?w3))"
    using Run_outcome_priority [of ex_fail 0 "(NewRunner 0 0, [])" "Stmt 0", unfolded Let_def start]
      st we3
    by simp
  moreover have "uint (word_of_int 3 :: 8 word) = 3"
    using Run_outcome_priority [of ex_fail 0 "(NewRunner 0 0, [])" "Stmt 0"] by simp
  ultimately show ?thesis
    using st we by (simp add: run_fail_def)
qed

text \<open>
  Claim C4. For a Runner whose overlay, once it was reset, lives in the store, and an
  executor whose \<open>fillExpandConfig\<close> leaves the store and the overlay of the Runner
  alone: \<open>subshell\<close> returns a copy and the parent, which is the Runner given, reset first
  if it never was. Every lookup in the copy gives, at the fork, what the lookup in the
  parent gave before the fork, so a variable set in the parent before the fork is
  visible in the subshell; after any sequence of writes made in the subshell every
  lookup of the parent still gives what it gave before the fork; and the subshell reads
  back what it writes.
\<close>

theorem subshell_isolation:
  assumes fe: "\<forall>c x. snd (fillExpandConfig ex c x) = snd x
                 \<and> writeEnv (fst (fillExpandConfig ex c x)) = writeEnv (fst x)"
    and valid: "didReset (fst w) \<longrightarrow>
                  (\<exists>h. writeEnv (fst w) = Some h
                       \<and> (\<forall>a\<in>set (local_layer h # parents h). a < length (snd w)))"
  shows "\<exists>r2 w' hp h2.
           subshell ex background w = Some (r2, w')
           \<and> fst w' = fst (if didReset (fst w) then w else Reset (fst w) (snd w))
           \<and> writeEnv (fst w') = Some hp \<and> writeEnv r2 = Some h2
           \<and> (\<forall>nm. overlay_Get (snd w') h2 nm
                     = overlay_Get (snd (if didReset (fst w) then w else Reset (fst w) (snd w))) hp nm)
           \<and> (\<forall>writes nm.
                 overlay_Get (fold (\<lambda>x. setVar h2 (fst x) (snd x)) writes (snd w')) hp nm
                 = overlay_Get (snd (if didReset (fst w) then w else Reset (fst w) (snd w))) hp nm)
           \<and> (\<forall>writes nm vr.
                 overlay_Get (setVar h2 nm vr (fold (\<lambda>x. setVar h2 (fst x) (snd x)) writes (snd w')))
                   h2 nm = vr)"
proof -
  let ?w1 = "if didReset (fst w) then w else Reset (fst w) (snd w)"
  have "\<exists>h. writeEnv (fst ?w1) = Some h \<and> (\<forall>a\<in>set (local_layer h # parents h). a < length (snd ?w1))"
  proof (cases "didReset (fst w)")
    case True
    with valid show ?thesis by simp
  next
    case False
    have "writeEnv (fst (Reset (fst w) (snd w))) = Some (snd (overlay_over_base (snd w) (Env (fst w))))"
      by (rule Reset_fields)
    with Reset_valid [of "fst w" "snd w"] False show ?thesis by simp
  qed
  then obtain h where h: "writeEnv (fst ?w1) = Some h"
    and hv: "\<forall>a\<in>set (local_layer h # parents h). a < length (snd ?w1)"
    by blast
  let ?st2 = "fst (newOverlayEnviron (snd ?w1) h background)"
  let ?h2 = "snd (newOverlayEnviron (snd ?w1) h background)"
  let ?r2 = "fst (the (subshell ex background w))"
  have w1': "(if \<not> didReset (fst w) then Reset (fst w) (snd w) else w) = ?w1"
    by simp
  from h fe have sub: "subshell ex background w = Some (?r2, (fst ?w1, ?st2))"
    and r2: "writeEnv ?r2 = Some ?h2"
    unfolding subshell_def Let_def w1' by simp_all
  have l2: "local_layer ?h2 = length (snd ?w1)" "parents ?h2 = local_layer h # parents h"
    "base ?h2 = base h" "?st2 = snd ?w1 @ [\<lparr>values = Map.empty, guarded = background\<rparr>]"
    by (simp_all add: newOverlayEnviron_def)
  have notin: "local_layer ?h2 \<notin> set (local_layer h # parents h)"
    using hv l2(1) by auto
  have keep: "overlay_Get ?st2 h nm = overlay_Get (snd ?w1) h nm" for nm
    unfolding overlay_Get_def l2(4) by (rule chain_Get_append [OF hv])
  have see: "overlay_Get ?st2 ?h2 nm = overlay_Get (snd ?w1) h nm" for nm
  proof -
    have "overlay_Get ?st2 ?h2 nm = overlay_Get ?st2 h nm"
      by (simp add: overlay_Get_def l2)
    then show ?thesis by (simp only: keep)
  qed
  have iso: "overlay_Get (fold (\<lambda>x. setVar ?h2 (fst x) (snd x)) writes ?st2) h nm
             = overlay_Get (snd ?w1) h nm" for writes nm
  proof -
    have "overlay_Get (fold (\<lambda>x. setVar ?h2 (fst x) (snd x)) writes ?st2) h nm
          = overlay_Get ?st2 h nm"
      unfolding overlay_Get_def by (rule chain_Get_writes [OF notin])
    then show ?thesis by (simp only: keep)
  qed
  have ok2: "layer_ok ?st2 ?h2"
    using notin by (simp add: layer_ok_def l2)
  have okf: "layer_ok (fold (\<lambda>x. setVar ?h2 (fst x) (snd x)) writes ?st2) ?h2" for writes
  proof -
    have "layer_ok st ?h2 \<Longrightarrow> layer_ok (fold (\<lambda>x. setVar ?h2 (fst x) (snd x)) writes st) ?h2" for st
      by (induction writes arbitrary: st) simp_all
    then show ?thesis using ok2 .
  qed
  have own: "overlay_Get (setVar ?h2 nm vr (fold (\<lambda>x. setVar ?h2 (fst x) (snd x)) writes ?st2))
               ?h2 nm = vr" for writes nm vr
    by (simp add: Get_setVar [OF okf])
  from sub h r2 see iso own show ?thesis
    by (intro exI [of _ ?r2] exI [of _ "(fst ?w1, ?st2)"] exI [of _ h] exI [of _ ?h2])
       (simp only: fst_conv snd_conv simp_thms)
qed

theorem subshell_isolation_witness:
  "didReset (fst parent_demo)
   \<and> overlay_Get (snd parent_demo) (the (writeEnv (fst parent_demo))) ''X'' = string_Variable ''1''
   \<and> sub_demo \<noteq> None
   \<and> overlay_Get (snd (snd (the sub_demo))) (the (writeEnv (fst (the sub_demo)))) ''X''
       = string_Variable ''1''
   \<and> overlay_Get (snd (snd (the sub_demo))) (the (writeEnv (fst (the sub_demo)))) ''HOME''
       = string_Variable ''/''
   \<and> overlay_Get
        (setVar (the (writeEnv (fst (the sub_demo)))) ''X'' (string_Variable ''2'')
           (snd (snd (the sub_demo))))
        (the (writeEnv (fst (snd (the sub_demo))))) ''X''
       = string_Variable ''1''
   \<and> overlay_Get
        (setVar (the (writeEnv (fst (the sub_demo)))) ''X'' (string_Variable ''2'')
           (snd (snd (the sub_demo))))
        (the (writeEnv (fst (the sub_demo)))) ''X''
       = string_Variable ''2''"
proof -
  let ?r = "NewRunner 0 0"
  let ?H = "snd (overlay_over_base [] (Env ?r))"
  have dr: "didReset (fst parent_demo)"
    by (simp add: parent_demo_def Reset_fields)
  have we: "writeEnv (fst parent_demo) = Some ?H"
    by (simp add: parent_demo_def Reset_fields)
  have st: "snd parent_demo = setVar ?H ''X'' (string_Variable ''1'') (snd (Reset ?r []))"
    by (simp add: parent_demo_def Reset_fields)
  have ok: "layer_ok (snd (Reset ?r [])) ?H"
    by (simp add: Reset_store)
  have px: "overlay_Get (snd parent_demo) ?H ''X'' = string_Variable ''1''"
    by (simp add: st Get_setVar [OF ok])
  have ph: "overlay_Get (snd parent_demo) ?H ''HOME'' = string_Variable ''/''"
    by (simp add: st Reset_store Get_setVar Get_setVarString Get_seed Get_fresh
        NewRunner_def zero_Runner_def Environ_Get_def IsSet_def zero_Variable_def)
  have fe: "\<forall>c x. snd (fillExpandConfig ex_idle c x) = snd x
                 \<and> writeEnv (fst (fillExpandConfig ex_idle c x)) = writeEnv (fst x)"
    by (simp add: ex_idle_def)
  have valid: "didReset (fst parent_demo) \<longrightarrow>
                 (\<exists>h. writeEnv (fst parent_demo) = Some h
                      \<and> (\<forall>a\<in>set (local_layer h # parents h). a < length (snd parent_demo)))"
    using ok by (simp add: we st layer_ok_def overlay_over_base_def)
  from subshell_isolation [OF fe valid, of False] dr obtain r2 w' hp h2 where
    sub: "subshell ex_idle False parent_demo = Some (r2, w')"
    and par: "fst w' = fst parent_demo"
    and hp: "writeEnv (fst w') = Some hp"
    and h2: "writeEnv r2 = Some h2"
    and see: "\<forall>nm. overlay_Get (snd w') h2 nm = overlay_Get (snd parent_demo) hp nm"
    and iso: "\<forall>writes nm.
                overlay_Get (fold (\<lambda>x. setVar h2 (fst x) (snd x)) writes (snd w')) hp nm
                = overlay_Get (snd parent_demo) hp nm"
    and own: "\<forall>writes nm vr.
                overlay_Get (setVar h2 nm vr (fold (\<lambda>x. setVar h2 (fst x) (snd x)) writes (snd w')))
                  h2 nm = vr"
    by auto
  from hp par we have hpH: "hp = ?H" by simp
  have the_sub: "the sub_demo = (r2, w')" and ne: "sub_demo \<noteq> None"
    using sub by (simp_all add: sub_demo_def)
  have c1: "overlay_Get (snd w') h2 ''X'' = string_Variable ''1''"
    using see px hpH by simp
  have c2: "overlay_Get (snd w') h2 ''HOME'' = string_Variable ''/''"
    using see ph hpH by simp
  have c3: "overlay_Get (setVar h2 ''X'' (string_Variable ''2'') (snd w')) hp ''X''
            = string_Variable ''1''"
    using iso [rule_format, of "[(''X'', string_Variable ''2'')]" "''X''"] px hpH by simp
  have c4: "overlay_Get (setVar h2 ''X'' (string_Variable ''2'') (snd w')) h2 ''X''
            = string_Variable ''2''"
    using own [rule_format, of "''X''" "string_Variable ''2''" "[]"] by simp
  from dr px we ne c1 c2 c3 c4 h2 hp show ?thesis
    by (simp add: the_sub)
qed

end
